theory Spec2Isabelle
  imports Complex_Main "HOL-Library.AList" "HOL-Library.Char_ord" "HOL-Library.List_Lexorder"
begin

section \<open>Kashmir: a vector store in Go\<close>

text \<open>
  The repository holds two variants of the same package: a persistent one on top of the
  Pebble key-value engine (functions \<open>CreateCollection\<close>, \<open>AddDocument\<close>, \<open>Query\<close> with an
  inlined metadata check) and an in-memory one (\<open>vectorDB.go\<close>: a map of collections, each
  with parallel slices \<open>documents\<close> and \<open>vectors\<close>). Functions that exist in both variants
  keep their name for the persistent one and carry the prefix \<open>mem_\<close> for the in-memory one.
\<close>

subsection \<open>float64 values\<close>

text \<open>
  A float64 is a finite number, an infinity or not-a-number. The comparisons of Go are
  those of IEEE 754: every comparison with \<open>NaN\<close> is false, \<open>NaN == NaN\<close> included.
  The two zeros are one value: the comparisons do not tell them apart, and in
  \<open>cosineSimilarity\<close> the accumulators start at \<open>+0\<close> and the denominator is a product
  of square roots of sums of squares, so no operation there depends on the sign of a zero.

  The rounding arithmetic is not fixed here: the operations that \<open>cosineSimilarity\<close> uses
  are a parameter (\<open>float_ops\<close>), so that what is proved for every \<open>float_ops\<close> holds for
  the rounding operations of the machine. The step \<open>acc += x * y\<close> of the loop is one
  operation, \<open>fmuladd acc x y\<close>, since Go may fuse the product and the sum into a single
  rounding. \<open>exact\<close> is the instance without rounding; it agrees with the machine on the
  small integers of the concrete evaluations below, where no operation rounds.
\<close>

datatype f64 = NaN | NInf | Fin real | PInf

fun fgt :: "f64 \<Rightarrow> f64 \<Rightarrow> bool" where
  "fgt NaN y = False"
| "fgt x NaN = False"
| "fgt PInf PInf = False"
| "fgt PInf y = True"
| "fgt x PInf = False"
| "fgt NInf y = False"
| "fgt (Fin a) NInf = True"
| "fgt (Fin a) (Fin b) = (b < a)"

fun feq :: "f64 \<Rightarrow> f64 \<Rightarrow> bool" where
  "feq NaN y = False"
| "feq x NaN = False"
| "feq x y = (x = y)"

record float_ops =
  fmuladd :: "f64 \<Rightarrow> f64 \<Rightarrow> f64 \<Rightarrow> f64"
  fmul :: "f64 \<Rightarrow> f64 \<Rightarrow> f64"
  fdiv :: "f64 \<Rightarrow> f64 \<Rightarrow> f64"
  fsqrt :: "f64 \<Rightarrow> f64"

fun exact_add :: "f64 \<Rightarrow> f64 \<Rightarrow> f64" where
  "exact_add NaN y = NaN"
| "exact_add x NaN = NaN"
| "exact_add PInf NInf = NaN"
| "exact_add NInf PInf = NaN"
| "exact_add PInf y = PInf"
| "exact_add x PInf = PInf"
| "exact_add NInf y = NInf"
| "exact_add x NInf = NInf"
| "exact_add (Fin a) (Fin b) = Fin (a + b)"

definition inf_of_sign :: "bool \<Rightarrow> f64" where
  "inf_of_sign positive = (if positive then PInf else NInf)"

fun exact_mul :: "f64 \<Rightarrow> f64 \<Rightarrow> f64" where
  "exact_mul NaN y = NaN"
| "exact_mul x NaN = NaN"
| "exact_mul (Fin a) (Fin b) = Fin (a * b)"
| "exact_mul (Fin a) PInf = (if a = 0 then NaN else inf_of_sign (0 < a))"
| "exact_mul (Fin a) NInf = (if a = 0 then NaN else inf_of_sign (a < 0))"
| "exact_mul PInf (Fin b) = (if b = 0 then NaN else inf_of_sign (0 < b))"
| "exact_mul NInf (Fin b) = (if b = 0 then NaN else inf_of_sign (b < 0))"
| "exact_mul PInf PInf = PInf"
| "exact_mul NInf NInf = PInf"
| "exact_mul PInf NInf = NInf"
| "exact_mul NInf PInf = NInf"

text \<open>
  Division by a zero that is the product of two square roots, hence \<open>+0\<close>: \<open>0/0\<close> is
  \<open>NaN\<close> and \<open>x/0\<close> is the infinity with the sign of \<open>x\<close>.
\<close>

fun exact_div :: "f64 \<Rightarrow> f64 \<Rightarrow> f64" where
  "exact_div NaN y = NaN"
| "exact_div x NaN = NaN"
| "exact_div (Fin a) (Fin b) =
     (if b = 0 then (if a = 0 then NaN else inf_of_sign (0 < a)) else Fin (a / b))"
| "exact_div (Fin a) y = Fin 0"
| "exact_div x (Fin b) = (if x = PInf then inf_of_sign (0 \<le> b) else inf_of_sign (b < 0))"
| "exact_div x y = NaN"

fun exact_sqrt :: "f64 \<Rightarrow> f64" where
  "exact_sqrt NaN = NaN"
| "exact_sqrt NInf = NaN"
| "exact_sqrt PInf = PInf"
| "exact_sqrt (Fin a) = (if a < 0 then NaN else Fin (sqrt a))"

definition exact :: float_ops where
  "exact = \<lparr>fmuladd = (\<lambda>acc x y. exact_add acc (exact_mul x y)), fmul = exact_mul,
             fdiv = exact_div, fsqrt = exact_sqrt\<rparr>"

subsection \<open>cosineSimilarity\<close>

text \<open>
  A run-time panic of Go is a value of its own, apart from the errors a function returns.
  \<open>cosineSimilarity\<close> reads \<open>b[i]\<close> for every \<open>i < len(a)\<close>: where \<open>b\<close> is the shorter
  vector the read is out of range and the program panics.
\<close>

datatype panic = IndexOutOfRange

fun cosine_loop ::
  "float_ops \<Rightarrow> f64 list \<Rightarrow> f64 list \<Rightarrow> f64 \<times> f64 \<times> f64 \<Rightarrow> panic + f64 \<times> f64 \<times> f64" where
  "cosine_loop ar [] b acc = Inr acc"
| "cosine_loop ar (x # a) [] acc = Inl IndexOutOfRange"
| "cosine_loop ar (x # a) (y # b) (dotProduct, squaredMagnitudeA, squaredMagnitudeB) =
     cosine_loop ar a b
       (fmuladd ar dotProduct x y,
        fmuladd ar squaredMagnitudeA x x,
        fmuladd ar squaredMagnitudeB y y)"

definition cosineSimilarity :: "float_ops \<Rightarrow> f64 list \<Rightarrow> f64 list \<Rightarrow> panic + f64" where
  "cosineSimilarity ar a b =
     (case cosine_loop ar a b (Fin 0, Fin 0, Fin 0) of
        Inl p \<Rightarrow> Inl p
      | Inr (dotProduct, squaredMagnitudeA, squaredMagnitudeB) \<Rightarrow>
          Inr (fdiv ar dotProduct
                 (fmul ar (fsqrt ar squaredMagnitudeA) (fsqrt ar squaredMagnitudeB))))"

text \<open>
  The test \<open>cosineSimilarity(a, b) == cosineSimilarity(b, a)\<close> on the outcomes of the two
  calls: it has a value when both calls return, and it is the \<open>==\<close> of float64.
\<close>

definition results_equal :: "panic + f64 \<Rightarrow> panic + f64 \<Rightarrow> bool" where
  "results_equal r1 r2 = (case (r1, r2) of (Inr s, Inr t) \<Rightarrow> feq s t | _ \<Rightarrow> False)"

subsection \<open>Metadata values, Go maps and strings\<close>

text \<open>
  Metadata values have type \<open>interface{}\<close>. The model keeps the scalars of the data model
  (strings, float64 and int numbers, booleans) and the nil interface, which is what
  indexing a map at a missing key returns. \<open>go_eq\<close> is \<open>==\<close> on interface values: equal
  dynamic types and equal values, so an int never equals a float64.
\<close>

datatype val = VNil | VString string | VFloat f64 | VInt int | VBool bool

fun go_eq :: "val \<Rightarrow> val \<Rightarrow> bool" where
  "go_eq VNil VNil = True"
| "go_eq (VString a) (VString b) = (a = b)"
| "go_eq (VFloat a) (VFloat b) = feq a b"
| "go_eq (VInt a) (VInt b) = (a = b)"
| "go_eq (VBool a) (VBool b) = (a = b)"
| "go_eq x y = False"

text \<open>
  A \<open>map[string]interface{}\<close> is an association list; the order of the list stands for the
  order in which a \<open>range\<close> loop happens to visit the entries.
\<close>

type_synonym gomap = "(string \<times> val) list"

definition index_map :: "gomap \<Rightarrow> string \<Rightarrow> val" where
  "index_map m k = (case map_of m k of None \<Rightarrow> VNil | Some v \<Rightarrow> v)"

text \<open>
  \<open>strings.TrimRight\<close> with a cutset of one ASCII character strips the trailing bytes
  equal to it.
\<close>

definition TrimRight :: "string \<Rightarrow> string \<Rightarrow> string" where
  "TrimRight s cutset = rev (dropWhile (\<lambda>c. c \<in> set cutset) (rev s))"

text \<open>The helper \<open>matchesMetadataFilter\<close>, the same in both variants.\<close>

fun matchesMetadataFilter :: "gomap \<Rightarrow> gomap \<Rightarrow> bool" where
  "matchesMetadataFilter metadata [] = True"
| "matchesMetadataFilter metadata ((key, filterValue) # rest) =
     (case map_of metadata key of
        None \<Rightarrow> False
      | Some metadataValue \<Rightarrow>
          if \<not> go_eq metadataValue filterValue then False
          else matchesMetadataFilter metadata rest)"

subsection \<open>Errors and the external collaborators\<close>

text \<open>
  An error is \<open>errors.New\<close> of a message or \<open>fmt.Errorf\<close> wrapping another error.
\<close>

datatype error = New string | Errorf string error

definition ErrNotFound :: error where
  "ErrNotFound = New ''pebble: not found''"

record Document =
  ID :: string
  Text :: string
  Embedding :: "f64 list"
  Metadata :: gomap

definition zeroDocument :: Document where
  "zeroDocument = \<lparr>ID = [], Text = [], Embedding = [], Metadata = []\<rparr>"

text \<open>
  The embedding service (\<open>generateEmbedding\<close> posts the text to a remote API) and the JSON
  codec are taken as parameters. Nothing is assumed of them: the embedder may fail on any
  text, and so may the codec on any record.

  \<open>strings.ToLower\<close> of the standard library, which lower-cases every Unicode letter of
  a string, is a parameter too (\<open>strings_ToLower\<close>). Where a theorem needs a fact about
  it, the fact is a hypothesis of the theorem.
\<close>

record env =
  generateEmbedding :: "string \<Rightarrow> error + f64 list"
  json_Marshal :: "Document \<Rightarrow> error + string"
  json_Unmarshal :: "string \<Rightarrow> error + Document"
  strings_ToLower :: "string \<Rightarrow> string"
  arith :: float_ops

subsection \<open>The Pebble store\<close>

text \<open>
  The store is a finite table from keys to values, both byte strings. \<open>Get\<close> answers with
  the value or with \<open>ErrNotFound\<close>; an iterator walks the keys of a half-open range in
  byte-lexicographic order. The store is reliable: \<open>Get\<close>, \<open>Set\<close> and the iterator raise no
  input/output error, although the callers below keep the branch that handles one.
\<close>

type_synonym pebble = "(string \<times> string) list"

definition pebble_Get :: "pebble \<Rightarrow> string \<Rightarrow> error + string" where
  "pebble_Get db key = (case map_of db key of None \<Rightarrow> Inl ErrNotFound | Some v \<Rightarrow> Inr v)"

definition pebble_Set :: "pebble \<Rightarrow> string \<Rightarrow> string \<Rightarrow> error + pebble" where
  "pebble_Set db key v = Inr (AList.update key v db)"

definition pebble_NewIter :: "pebble \<Rightarrow> string \<Rightarrow> string \<Rightarrow> (string \<times> string) list" where
  "pebble_NewIter db lowerBound upperBound =
     sort_key fst (filter (\<lambda>(k, v). lowerBound \<le> k \<and> k < upperBound) db)"

subsection \<open>The persistent variant\<close>

definition CreateCollection :: "pebble \<Rightarrow> string \<Rightarrow> error option \<times> pebble" where
  "CreateCollection db name =
     (let prefix = name @ '':'';
          iter = pebble_NewIter db prefix (TrimRight name '':'' @ '';'')
      in if iter \<noteq> [] then (Some (New ''collection already exists''), db)
         else (None, db))"

definition AddDocument ::
  "env \<Rightarrow> pebble \<Rightarrow> string \<Rightarrow> string \<Rightarrow> string \<Rightarrow> gomap \<Rightarrow> error option \<times> pebble" where
  "AddDocument e db collectionName docID text metadata =
     (let docKey = collectionName @ '':'' @ docID in
      case pebble_Get db docKey of
        Inr found \<Rightarrow> (Some (New ''document already exists''), db)
      | Inl err \<Rightarrow>
          if err \<noteq> ErrNotFound
          then (Some (Errorf ''error checking document existence'' err), db)
          else
            (case generateEmbedding e text of
               Inl err \<Rightarrow> (Some (Errorf ''error generating embedding'' err), db)
             | Inr embedding \<Rightarrow>
                 (let doc = \<lparr>ID = docID, Text = text, Embedding = embedding,
                             Metadata = metadata\<rparr> in
                  case json_Marshal e doc of
                    Inl err \<Rightarrow> (Some (Errorf ''error serializing document'' err), db)
                  | Inr docBytes \<Rightarrow>
                      (case pebble_Set db docKey docBytes of
                         Inl err \<Rightarrow>
                           (Some (Errorf ''error writing document to Pebble DB'' err), db)
                       | Inr db' \<Rightarrow> (None, db')))))"

text \<open>
  The first loop of \<open>Query\<close> ranges over the caller's filter and, for each entry it
  visits, deletes the entry and stores its value under the lower-cased key. The keys to
  visit are those of the map when the loop starts; an entry is produced with the value it
  holds when it is reached. An entry created by the loop may or may not be visited by Go.
  Its key is a lower-cased key: as long as lower-casing a lower-cased key gives the same
  key, visiting the entry deletes it and stores it again unchanged, so the model does not
  visit it. The theorems about this loop assume that much of \<open>strings.ToLower\<close>.
\<close>

fun lowercaseKeys :: "(string \<Rightarrow> string) \<Rightarrow> string list \<Rightarrow> gomap \<Rightarrow> gomap" where
  "lowercaseKeys ToLower [] metadataFilter = metadataFilter"
| "lowercaseKeys ToLower (key # keys) metadataFilter =
     (case map_of metadataFilter key of
        None \<Rightarrow> lowercaseKeys ToLower keys metadataFilter
      | Some v \<Rightarrow>
          lowercaseKeys ToLower keys
            (AList.update (ToLower key) v (AList.delete key metadataFilter)))"

text \<open>The check inlined in the scan of \<open>Query\<close>, whose flag is named \<open>matchesFilter\<close>.\<close>

fun matchesFilter :: "(string \<Rightarrow> string) \<Rightarrow> gomap \<Rightarrow> gomap \<Rightarrow> bool" where
  "matchesFilter ToLower metadata [] = True"
| "matchesFilter ToLower metadata ((key, v) # rest) =
     (let lowercaseKey = ToLower key in
      if \<not> go_eq (index_map metadata lowercaseKey) v then False
      else matchesFilter ToLower metadata rest)"

fun scan ::
  "env \<Rightarrow> f64 list \<Rightarrow> gomap \<Rightarrow> (string \<times> string) list \<Rightarrow> f64 \<Rightarrow> Document
   \<Rightarrow> panic + Document \<times> error option" where
  "scan e queryVec metadataFilter [] maxSimilarity matchingDoc = Inr (matchingDoc, None)"
| "scan e queryVec metadataFilter ((key, bytes) # iter) maxSimilarity matchingDoc =
     (case json_Unmarshal e bytes of
        Inl err \<Rightarrow> Inr (matchingDoc, Some err)
      | Inr doc \<Rightarrow>
          if matchesFilter (strings_ToLower e) (Metadata doc) metadataFilter then
            if length queryVec > 0 \<and> length queryVec = length (Embedding doc) then
              (case cosineSimilarity (arith e) queryVec (Embedding doc) of
                 Inl p \<Rightarrow> Inl p
               | Inr similarity \<Rightarrow>
                   if fgt similarity maxSimilarity
                   then scan e queryVec metadataFilter iter similarity doc
                   else scan e queryVec metadataFilter iter maxSimilarity matchingDoc)
            else scan e queryVec metadataFilter iter maxSimilarity matchingDoc
          else scan e queryVec metadataFilter iter maxSimilarity matchingDoc)"

text \<open>
  \<open>Query\<close> returns the document, the error, and the caller's filter map as the call
  leaves it.
\<close>

definition Query ::
  "env \<Rightarrow> pebble \<Rightarrow> string \<Rightarrow> string \<Rightarrow> gomap \<Rightarrow> panic + Document \<times> error option \<times> gomap" where
  "Query e db collectionName queryText metadataFilter =
     (case generateEmbedding e queryText of
        Inl err \<Rightarrow> Inr (zeroDocument, Some err, metadataFilter)
      | Inr queryVec \<Rightarrow>
          (let prefix = collectionName @ '':'';
               iter = pebble_NewIter db prefix (prefix @ [CHR 0xFF]);
               metadataFilter' =
                 lowercaseKeys (strings_ToLower e) (map fst metadataFilter) metadataFilter
           in case scan e queryVec metadataFilter' iter (Fin (- 1)) zeroDocument of
                Inl p \<Rightarrow> Inl p
              | Inr (matchingDoc, err) \<Rightarrow> Inr (matchingDoc, err, metadataFilter')))"

subsection \<open>The in-memory variant\<close>

record MemDocument =
  DocID :: string
  DocText :: string
  DocMetadata :: gomap

record Collection =
  name :: string
  documents :: "MemDocument list"
  vectors :: "f64 list list"

type_synonym VectorDB = "string \<rightharpoonup> Collection"

definition NewCollection :: "string \<Rightarrow> Collection" where
  "NewCollection n = \<lparr>name = n, documents = [], vectors = []\<rparr>"

definition mem_CreateCollection :: "VectorDB \<Rightarrow> string \<Rightarrow> error option \<times> VectorDB" where
  "mem_CreateCollection db n =
     (case db n of
        Some c \<Rightarrow> (Some (New ''collection already exists''), db)
      | None \<Rightarrow> (None, db(n \<mapsto> NewCollection n)))"

definition mem_AddDocument ::
  "env \<Rightarrow> VectorDB \<Rightarrow> string \<Rightarrow> string \<Rightarrow> string \<Rightarrow> error option \<times> VectorDB" where
  "mem_AddDocument e db collectionName docID text =
     (case db collectionName of
        None \<Rightarrow> (Some (New ''collection not found''), db)
      | Some collection \<Rightarrow>
          (let collection1 = collection\<lparr>documents := documents collection @
                 [\<lparr>DocID = docID, DocText = text, DocMetadata = []\<rparr>]\<rparr>
           in case generateEmbedding e text of
                Inl err \<Rightarrow> (Some err, db(collectionName \<mapsto> collection1))
              | Inr embedding \<Rightarrow>
                  (None, db(collectionName \<mapsto>
                     collection1\<lparr>vectors := vectors collection1 @ [embedding]\<rparr>))))"

definition mem_AddDocumentWithMetadata ::
  "env \<Rightarrow> VectorDB \<Rightarrow> string \<Rightarrow> string \<Rightarrow> string \<Rightarrow> gomap \<Rightarrow> error option \<times> VectorDB" where
  "mem_AddDocumentWithMetadata e db collectionName docID text metadata =
     (case db collectionName of
        None \<Rightarrow> (Some (New ''collection not found''), db)
      | Some collection \<Rightarrow>
          (let doc = \<lparr>DocID = docID, DocText = text, DocMetadata = metadata\<rparr>;
               collection1 = collection\<lparr>documents := documents collection @ [doc]\<rparr>
           in case generateEmbedding e text of
                Inl err \<Rightarrow> (Some err, db(collectionName \<mapsto> collection1))
              | Inr embedding \<Rightarrow>
                  (None, db(collectionName \<mapsto>
                     collection1\<lparr>vectors := vectors collection1 @ [embedding]\<rparr>))))"

text \<open>
  The loops of \<open>findNearestNeighbor\<close> and \<open>findNearestNeighborWithMetadata\<close> range over
  \<open>vectors\<close> and read \<open>documents[i]\<close> at the same index \<open>i\<close>.
\<close>

fun nearest_loop ::
  "float_ops \<Rightarrow> f64 list \<Rightarrow> f64 list list \<Rightarrow> MemDocument list \<Rightarrow> nat \<Rightarrow> f64 \<Rightarrow> string
   \<Rightarrow> panic + string" where
  "nearest_loop ar queryVec [] docs i maxSimilarity nearestID = Inr nearestID"
| "nearest_loop ar queryVec (vec # vecs) docs i maxSimilarity nearestID =
     (case cosineSimilarity ar queryVec vec of
        Inl p \<Rightarrow> Inl p
      | Inr similarity \<Rightarrow>
          if fgt similarity maxSimilarity then
            if i < length docs
            then nearest_loop ar queryVec vecs docs (Suc i) similarity (DocID (docs ! i))
            else Inl IndexOutOfRange
          else nearest_loop ar queryVec vecs docs (Suc i) maxSimilarity nearestID)"

definition findNearestNeighbor ::
  "float_ops \<Rightarrow> f64 list \<Rightarrow> f64 list list \<Rightarrow> MemDocument list \<Rightarrow> panic + string \<times> error option" where
  "findNearestNeighbor ar queryVec vecs docs =
     (if length vecs = 0 then Inr ([], Some (New ''collection is empty''))
      else case nearest_loop ar queryVec vecs docs 0 (Fin (- 1)) [] of
             Inl p \<Rightarrow> Inl p
           | Inr nearestID \<Rightarrow> Inr (nearestID, None))"

fun nearest_loop_md ::
  "float_ops \<Rightarrow> f64 list \<Rightarrow> f64 list list \<Rightarrow> MemDocument list \<Rightarrow> gomap \<Rightarrow> nat \<Rightarrow> f64 \<Rightarrow> string
   \<Rightarrow> panic + string" where
  "nearest_loop_md ar queryVec [] docs metadataFilter i maxSimilarity nearestID = Inr nearestID"
| "nearest_loop_md ar queryVec (vec # vecs) docs metadataFilter i maxSimilarity nearestID =
     (if \<not> i < length docs then Inl IndexOutOfRange
      else if \<not> matchesMetadataFilter (DocMetadata (docs ! i)) metadataFilter
      then nearest_loop_md ar queryVec vecs docs metadataFilter (Suc i) maxSimilarity nearestID
      else
        (case cosineSimilarity ar queryVec vec of
           Inl p \<Rightarrow> Inl p
         | Inr similarity \<Rightarrow>
             if fgt similarity maxSimilarity
             then nearest_loop_md ar queryVec vecs docs metadataFilter (Suc i) similarity
                    (DocID (docs ! i))
             else nearest_loop_md ar queryVec vecs docs metadataFilter (Suc i) maxSimilarity
                    nearestID))"

definition findNearestNeighborWithMetadata ::
  "float_ops \<Rightarrow> f64 list \<Rightarrow> f64 list list \<Rightarrow> MemDocument list \<Rightarrow> gomap
   \<Rightarrow> panic + string \<times> error option" where
  "findNearestNeighborWithMetadata ar queryVec vecs docs metadataFilter =
     (if length vecs = 0 then Inr ([], Some (New ''collection is empty''))
      else case nearest_loop_md ar queryVec vecs docs metadataFilter 0 (Fin (- 1)) [] of
             Inl p \<Rightarrow> Inl p
           | Inr nearestID \<Rightarrow> Inr (nearestID, None))"

subsection \<open>Stubs of the collaborators\<close>

text \<open>
  For the concrete evaluations: an embedder and a JSON codec given by finite tables, with
  the exact arithmetic. A text outside the embedder's table fails with the error that
  \<open>generateEmbedding\<close> returns on an empty response.

  The stub of \<open>strings.ToLower\<close> is what the library computes on a string of ASCII
  characters, where it adds \<open>'a' - 'A'\<close> to each byte between \<open>'A'\<close> and \<open>'Z'\<close> and
  leaves the others. It stands for the library on such strings only; every key of the
  concrete evaluations is one.
\<close>

definition isASCIIUpper :: "char \<Rightarrow> bool" where
  "isASCIIUpper c = (CHR ''A'' \<le> c \<and> c \<le> CHR ''Z'')"

definition ascii_toLowerChar :: "char \<Rightarrow> char" where
  "ascii_toLowerChar c = (if isASCIIUpper c then char_of (of_char c + (32::nat)) else c)"

definition ascii_ToLower :: "string \<Rightarrow> string" where
  "ascii_ToLower s = map ascii_toLowerChar s"

definition stub_env :: "(string \<times> f64 list) list \<Rightarrow> (string \<times> Document) list \<Rightarrow> env" where
  "stub_env embeddings records =
     \<lparr>generateEmbedding =
        (\<lambda>text. case map_of embeddings text of
                  None \<Rightarrow> Inl (New ''no embeddings found in the response'')
                | Some v \<Rightarrow> Inr v),
      json_Marshal =
        (\<lambda>doc. case map_of (map (\<lambda>(bytes, d). (d, bytes)) records) doc of
                 None \<Rightarrow> Inl (New ''json: unsupported value'')
               | Some bytes \<Rightarrow> Inr bytes),
      json_Unmarshal =
        (\<lambda>bytes. case map_of records bytes of
                   None \<Rightarrow> Inl (New ''unexpected end of JSON input'')
                 | Some d \<Rightarrow> Inr d),
      strings_ToLower = ascii_ToLower,
      arith = exact\<rparr>"

text \<open>
  The scenario of the specification: the collection \<open>docs\<close> holds the documents \<open>a\<close> and
  \<open>b\<close> with the embeddings \<open>[1,0]\<close> and \<open>[0,1]\<close>, and the query text \<open>q\<close> embeds to
  \<open>[1,0]\<close>. The stored bytes are the names \<open>A\<close> and \<open>B\<close> of the two records.
\<close>

definition doc_a :: Document where
  "doc_a = \<lparr>ID = ''a'', Text = ''The cat sat'', Embedding = [Fin 1, Fin 0],
            Metadata = [(''source'', VString ''x'')]\<rparr>"

definition doc_b :: Document where
  "doc_b = \<lparr>ID = ''b'', Text = ''A dog ran'', Embedding = [Fin 0, Fin 1],
            Metadata = [(''source'', VString ''y'')]\<rparr>"

definition scenario_env :: env where
  "scenario_env = stub_env [(''q'', [Fin 1, Fin 0])] [(''A'', doc_a), (''B'', doc_b)]"

definition scenario_db :: pebble where
  "scenario_db = [(''docs:b'', ''B''), (''docs:a'', ''A'')]"

section \<open>Ingestion\<close>

subsection \<open>A failed embedding\<close>

lemma AddDocument_failure_writes_nothing:
  "fst (AddDocument e db collectionName docID text metadata) = Some err
   \<Longrightarrow> snd (AddDocument e db collectionName docID text metadata) = db"
  by (auto simp: AddDocument_def Let_def pebble_Set_def split: sum.splits if_splits)

lemma AddDocument_embedding_failure:
  assumes "collectionName @ '':'' @ docID \<notin> fst ` set db"
    and "generateEmbedding e text = Inl err"
  shows "AddDocument e db collectionName docID text metadata =
           (Some (Errorf ''error generating embedding'' err), db)"
proof -
  have "map_of db (collectionName @ '':'' @ docID) = None"
    using assms(1) by (simp add: map_of_eq_None_iff)
  then have "pebble_Get db (collectionName @ '':'' @ docID) = Inl ErrNotFound"
    by (simp add: pebble_Get_def)
  then show ?thesis
    using assms(2) by (simp add: AddDocument_def)
qed

text \<open>
  Claim C1. A call of AddDocument whose embedding fails returns the error and writes
  nothing. The persistent \<open>AddDocument\<close> does so (the two lemmas above). The in-memory
  \<open>AddDocument\<close> and \<open>AddDocumentWithMetadata\<close> append the document before they call the
  embedder, and return on its failure with the document kept and no vector beside it: in
  the collection \<open>c\<close>, created empty, the failed call leaves one document and no vector.
\<close>

theorem mem_AddDocument_failed_embedding_keeps_document:
  "mem_AddDocumentWithMetadata (stub_env [] []) [''c'' \<mapsto> NewCollection ''c''] ''c'' ''x'' ''t'' []
     = (Some (New ''no embeddings found in the response''),
        [''c'' \<mapsto> \<lparr>name = ''c'',
                   documents = [\<lparr>DocID = ''x'', DocText = ''t'', DocMetadata = []\<rparr>],
                   vectors = []\<rparr>])
   \<and> mem_AddDocument (stub_env [] []) [''c'' \<mapsto> NewCollection ''c''] ''c'' ''x'' ''t''
     = (Some (New ''no embeddings found in the response''),
        [''c'' \<mapsto> \<lparr>name = ''c'',
                   documents = [\<lparr>DocID = ''x'', DocText = ''t'', DocMetadata = []\<rparr>],
                   vectors = []\<rparr>])"
  by (simp add: mem_AddDocumentWithMetadata_def mem_AddDocument_def stub_env_def
      NewCollection_def)

text \<open>
  The two slices are then out of step. After the failed insertion of \<open>x\<close> and the
  successful insertion of \<open>y\<close>, whose text embeds to \<open>[0,1]\<close>, the only vector is the one
  of \<open>y\<close> and \<open>findNearestNeighbor\<close> reports it under the id \<open>x\<close>.
\<close>

lemma mem_AddDocument_failure_misaligns:
  "map_option (\<lambda>col. findNearestNeighbor exact [Fin 0, Fin 1] (vectors col) (documents col))
     (snd (mem_AddDocument (stub_env [(''A dog ran'', [Fin 0, Fin 1])] [])
             (snd (mem_AddDocument (stub_env [(''A dog ran'', [Fin 0, Fin 1])] [])
                     [''c'' \<mapsto> NewCollection ''c''] ''c'' ''x'' ''The cat sat''))
             ''c'' ''y'' ''A dog ran'') ''c'')
   = Some (Inr (''x'', None))"
  by (simp add: mem_AddDocument_def stub_env_def NewCollection_def findNearestNeighbor_def
      cosineSimilarity_def exact_def)

subsection \<open>A second insertion under the same id\<close>

text \<open>A successful \<open>AddDocument\<close> leaves the key \<open>collection:id\<close> in the store.\<close>

lemma AddDocument_success_stores_key:
  assumes "AddDocument e db collectionName docID text metadata = (None, db')"
  shows "collectionName @ '':'' @ docID \<in> fst ` set db'"
  using assms
  by (auto simp: AddDocument_def Let_def pebble_Set_def dom_update
      split: sum.splits if_splits)

text \<open>
  Claim C2, as amended. In the persistent variant, when the key \<open>collection:id\<close> is in the
  store, \<open>AddDocument\<close> fails with "document already exists" and returns the store as it
  was, whatever the embedder and the codec would have done.
\<close>

theorem AddDocument_existing_id:
  assumes "collectionName @ '':'' @ docID \<in> fst ` set db"
  shows "AddDocument e db collectionName docID text metadata =
           (Some (New ''document already exists''), db)"
proof -
  obtain v where "map_of db (collectionName @ '':'' @ docID) = Some v"
    using assms by (metis map_of_eq_None_iff not_Some_eq)
  then have "pebble_Get db (collectionName @ '':'' @ docID) = Inr v"
    by (simp add: pebble_Get_def)
  then show ?thesis
    by (simp add: AddDocument_def)
qed

theorem AddDocument_existing_id_witness:
  "''docs:a'' \<in> fst ` set [(''docs:a'', ''{}'')]
   \<and> AddDocument (stub_env [] []) [(''docs:a'', ''{}'')] ''docs'' ''a'' ''The cat sat'' []
       = (Some (New ''document already exists''), [(''docs:a'', ''{}'')])"
  using AddDocument_existing_id [of "''docs''" "''a''" "[(''docs:a'', ''{}'')]"
      "stub_env [] []" "''The cat sat''" "[]"]
  by simp

text \<open>
  The in-memory variant has no check of the id: a second \<open>AddDocument\<close> with the id \<open>a\<close>
  returns no error and the collection then holds two documents with that id.
\<close>

theorem mem_AddDocument_accepts_duplicate_id:
  "fst (mem_AddDocument (stub_env [(''t'', [Fin 1])] [])
          (snd (mem_AddDocument (stub_env [(''t'', [Fin 1])] [])
                  [''c'' \<mapsto> NewCollection ''c''] ''c'' ''a'' ''t''))
          ''c'' ''a'' ''t'') = None
   \<and> map_option (map DocID \<circ> documents)
        (snd (mem_AddDocument (stub_env [(''t'', [Fin 1])] [])
                (snd (mem_AddDocument (stub_env [(''t'', [Fin 1])] [])
                        [''c'' \<mapsto> NewCollection ''c''] ''c'' ''a'' ''t''))
                ''c'' ''a'' ''t'') ''c'')
       = Some [''a'', ''a'']"
  by (simp add: mem_AddDocument_def stub_env_def NewCollection_def)

text \<open>
  In general the in-memory \<open>AddDocument\<close> appends whatever the id, as soon as the
  collection exists and the text embeds.
\<close>

lemma mem_AddDocument_appends:
  assumes "db collectionName = Some col" and "generateEmbedding e text = Inr v"
  shows "mem_AddDocument e db collectionName docID text =
           (None, db(collectionName \<mapsto>
              col\<lparr>documents := documents col
                                @ [\<lparr>DocID = docID, DocText = text, DocMetadata = []\<rparr>],
                  vectors := vectors col @ [v]\<rparr>))"
  using assms by (simp add: mem_AddDocument_def)

section \<open>The similarity engine\<close>

lemma exact_mul_commute: "exact_mul x y = exact_mul y x"
  by (cases x; cases y) (simp_all add: mult.commute)

lemma cosine_loop_swap:
  assumes "\<forall>acc x y. fmuladd ar acc x y = fmuladd ar acc y x" and "length a = length b"
  shows "cosine_loop ar b a (d, sb, sa) =
           map_sum id (\<lambda>(d', sa', sb'). (d', sb', sa')) (cosine_loop ar a b (d, sa, sb))"
  using assms(2)
proof (induction a b arbitrary: d sa sb rule: list_induct2)
  case Nil
  show ?case by simp
next
  case (Cons x xs y ys)
  have "fmuladd ar d y x = fmuladd ar d x y"
    using assms(1) by simp
  then show ?case
    using Cons.IH by simp
qed

lemma cosine_loop_total:
  "length a = length b \<Longrightarrow> \<exists>d sa sb. cosine_loop ar a b acc = Inr (d, sa, sb)"
proof (induction a b arbitrary: acc rule: list_induct2)
  case Nil
  show ?case by (cases acc) simp
next
  case (Cons x xs y ys)
  show ?case
    using Cons.IH by (cases acc) simp
qed

lemma cosineSimilarity_total:
  assumes "length a = length b"
  shows "\<exists>s. cosineSimilarity ar a b = Inr s"
proof -
  obtain d sa sb where "cosine_loop ar a b (Fin 0, Fin 0, Fin 0) = Inr (d, sa, sb)"
    using cosine_loop_total [OF assms] by blast
  then show ?thesis
    by (simp add: cosineSimilarity_def)
qed

lemma feq_self: "feq s s \<longleftrightarrow> s \<noteq> NaN"
  by (cases s) simp_all

text \<open>
  Claim C9, as amended. For two vectors of equal length the two calls return, and return
  the same float64, by the commutativity of the float64 product alone, fused into the sum
  or not (no other fact of the arithmetic is used, so rounding does not matter). The test
  \<open>cosineSimilarity(a, b) == cosineSimilarity(b, a)\<close> is true exactly when that value is
  not \<open>NaN\<close>.
\<close>

theorem cosineSimilarity_symmetric:
  assumes "\<forall>acc x y. fmuladd ar acc x y = fmuladd ar acc y x"
    and "\<forall>x y. fmul ar x y = fmul ar y x"
    and "length a = length b"
  shows "(\<exists>s. cosineSimilarity ar a b = Inr s \<and> cosineSimilarity ar b a = Inr s)
         \<and> results_equal (cosineSimilarity ar a b) (cosineSimilarity ar b a)
             = (cosineSimilarity ar a b \<noteq> Inr NaN)"
proof -
  obtain d sa sb where ab: "cosine_loop ar a b (Fin 0, Fin 0, Fin 0) = Inr (d, sa, sb)"
    using cosine_loop_total [OF assms(3)] by blast
  have ba: "cosine_loop ar b a (Fin 0, Fin 0, Fin 0) = Inr (d, sb, sa)"
    using ab by (simp add: cosine_loop_swap [OF assms(1,3)])
  have "fmul ar (fsqrt ar sb) (fsqrt ar sa) = fmul ar (fsqrt ar sa) (fsqrt ar sb)"
    using assms(2) by simp
  then show ?thesis
    using ab ba by (simp add: cosineSimilarity_def results_equal_def feq_self)
qed

text \<open>
  With the exact arithmetic: \<open>[1,0]\<close> and \<open>[0,1]\<close> have the similarity \<open>0\<close> both ways
  and the test is true.
\<close>

theorem cosineSimilarity_symmetric_witness:
  "cosineSimilarity exact [Fin 1, Fin 0] [Fin 0, Fin 1] = Inr (Fin 0)
   \<and> cosineSimilarity exact [Fin 0, Fin 1] [Fin 1, Fin 0] = Inr (Fin 0)
   \<and> results_equal (cosineSimilarity exact [Fin 1, Fin 0] [Fin 0, Fin 1])
        (cosineSimilarity exact [Fin 0, Fin 1] [Fin 1, Fin 0])"
proof -
  have fused: "\<forall>acc x y. fmuladd exact acc x y = fmuladd exact acc y x"
    by (simp add: exact_def exact_mul_commute)
  have comm: "\<forall>x y. fmul exact x y = fmul exact y x"
    by (simp add: exact_def exact_mul_commute)
  have len: "length [Fin 1, Fin 0] = length [Fin 0, Fin 1]"
    by simp
  have "cosineSimilarity exact [Fin 1, Fin 0] [Fin 0, Fin 1] = Inr (Fin 0)"
    by (simp add: cosineSimilarity_def exact_def)
  then show ?thesis
    using cosineSimilarity_symmetric [OF fused comm len] by auto
qed

text \<open>
  With the vectors \<open>[0]\<close> and \<open>[1]\<close> the quotient is \<open>0/0\<close>: both calls return \<open>NaN\<close>
  and the test is false.
\<close>

theorem cosineSimilarity_zero_vector_not_equal:
  "cosineSimilarity exact [Fin 0] [Fin 1] = Inr NaN
   \<and> cosineSimilarity exact [Fin 1] [Fin 0] = Inr NaN
   \<and> \<not> results_equal (cosineSimilarity exact [Fin 0] [Fin 1])
          (cosineSimilarity exact [Fin 1] [Fin 0])"
  by (simp add: cosineSimilarity_def exact_def results_equal_def)

section \<open>Strings and the keys of the filter\<close>

lemma isASCIIUpper_code: "isASCIIUpper c \<longleftrightarrow> 65 \<le> (of_char c :: nat) \<and> (of_char c :: nat) \<le> 90"
  by (simp add: isASCIIUpper_def less_eq_char_def)

lemma ascii_toLowerChar_not_upper: "\<not> isASCIIUpper (ascii_toLowerChar c)"
proof (cases "isASCIIUpper c")
  case True
  then have "(of_char c + 32 :: nat) mod 256 = of_char c + 32"
    by (simp add: isASCIIUpper_code)
  then show ?thesis
    using True by (simp add: ascii_toLowerChar_def isASCIIUpper_code)
next
  case False
  then show ?thesis by (simp add: ascii_toLowerChar_def)
qed

lemma ascii_toLowerChar_fixed: "ascii_toLowerChar c = c \<longleftrightarrow> \<not> isASCIIUpper c"
  by (metis ascii_toLowerChar_def ascii_toLowerChar_not_upper)

lemma ascii_ToLower_idem: "ascii_ToLower (ascii_ToLower s) = ascii_ToLower s"
  by (simp add: ascii_ToLower_def ascii_toLowerChar_fixed ascii_toLowerChar_not_upper)

lemma ascii_ToLower_fixed: "ascii_ToLower s = s \<longleftrightarrow> (\<forall>c\<in>set s. \<not> isASCIIUpper c)"
  by (induction s) (auto simp: ascii_ToLower_def ascii_toLowerChar_fixed)

lemma ascii_ToLower_Source: "ascii_ToLower ''Source'' = ''source''"
  by code_simp

lemma ascii_ToLower_source: "ascii_ToLower ''source'' = ''source''"
  by code_simp

lemma stub_env_ToLower_idem:
  "\<forall>s. strings_ToLower (stub_env embeddings records)
          (strings_ToLower (stub_env embeddings records) s)
        = strings_ToLower (stub_env embeddings records) s"
  by (simp add: stub_env_def ascii_ToLower_idem)

lemma TrimRight_no_trailing:
  assumes "s = [] \<or> last s \<noteq> c"
  shows "TrimRight s [c] = s"
proof (cases "rev s")
  case Nil
  then show ?thesis by (simp add: TrimRight_def)
next
  case (Cons x xs)
  then have "s \<noteq> []" by auto
  moreover have "last s = x"
    using Cons by (metis hd_rev list.sel(1))
  ultimately have "x \<noteq> c"
    using assms by simp
  then have "dropWhile (\<lambda>ch. ch \<in> set [c]) (rev s) = rev s"
    using Cons by simp
  then show ?thesis by (simp add: TrimRight_def)
qed

lemma keys_delete: "fst ` set (AList.delete k m) = fst ` set m - {k}"
proof -
  have "set (map fst (AList.delete k m)) = set (map fst m) - {k}"
    by (simp add: delete_keys)
  then show ?thesis by simp
qed

lemma keys_step:
  "fst ` set (AList.update (lower k) v (AList.delete k m))
     = insert (lower k) (fst ` set m - {k})"
  by (simp add: dom_update keys_delete)

text \<open>
  In the lemmas below \<open>lower\<close> is any function on strings with
  \<open>lower (lower s) = lower s\<close>. After the loop the keys of the map are the lower-cased
  keys of the map it started from.
\<close>

lemma lowercaseKeys_keys:
  assumes idem: "\<And>s. lower (lower s) = lower s"
  shows "distinct ks \<Longrightarrow> set ks \<subseteq> fst ` set m \<Longrightarrow>
   fst ` set (lowercaseKeys lower ks m) = (fst ` set m - set ks) \<union> lower ` set ks"
proof (induction ks arbitrary: m)
  case Nil
  show ?case by simp
next
  case (Cons k ks)
  from Cons.prems obtain v where v: "map_of m k = Some v"
    by (metis list.set_intros(1) map_of_eq_None_iff not_Some_eq subsetD)
  let ?m1 = "AList.update (lower k) v (AList.delete k m)"
  have keys1: "fst ` set ?m1 = insert (lower k) (fst ` set m - {k})"
    by (rule keys_step)
  have sub: "set ks \<subseteq> fst ` set ?m1"
    using Cons.prems keys1 by auto
  have "fst ` set (lowercaseKeys lower ks ?m1) = (fst ` set ?m1 - set ks) \<union> lower ` set ks"
    using Cons.IH [OF _ sub] Cons.prems(1) by simp
  moreover have "lower k \<in> set ks \<Longrightarrow> lower k \<in> lower ` set ks"
    by (metis idem imageI)
  ultimately show ?case
    using v keys1 by auto
qed

lemma lowercaseKeys_other:
  "x \<notin> set ks \<Longrightarrow> x \<notin> lower ` set ks \<Longrightarrow> map_of (lowercaseKeys lower ks m) x = map_of m x"
proof (induction ks arbitrary: m)
  case Nil
  show ?case by simp
next
  case (Cons k ks)
  show ?case
  proof (cases "map_of m k")
    case None
    then show ?thesis using Cons by simp
  next
    case (Some v)
    have "map_of (lowercaseKeys lower ks (AList.update (lower k) v (AList.delete k m))) x
            = map_of (AList.update (lower k) v (AList.delete k m)) x"
      using Cons by simp
    also have "\<dots> = map_of m x"
      using Cons.prems by (simp add: update_conv' delete_conv')
    finally show ?thesis using Some by simp
  qed
qed

text \<open>
  Where no two keys share a lower-cased form, each value moves from its key to the
  lower-cased key.
\<close>

lemma lowercaseKeys_value:
  assumes idem: "\<And>s. lower (lower s) = lower s"
  shows "distinct ks \<Longrightarrow> set ks \<subseteq> fst ` set m \<Longrightarrow> inj_on lower (fst ` set m) \<Longrightarrow> k \<in> set ks \<Longrightarrow>
   map_of (lowercaseKeys lower ks m) (lower k) = map_of m k"
proof (induction ks arbitrary: m)
  case Nil
  then show ?case by simp
next
  case (Cons k0 ks)
  from Cons.prems obtain v where v: "map_of m k0 = Some v"
    by (metis list.set_intros(1) map_of_eq_None_iff not_Some_eq subsetD)
  let ?m1 = "AList.update (lower k0) v (AList.delete k0 m)"
  have keys1: "fst ` set ?m1 = insert (lower k0) (fst ` set m - {k0})"
    by (rule keys_step)
  have sub: "set ks \<subseteq> fst ` set ?m1"
    using Cons.prems keys1 by auto
  have k0m: "k0 \<in> fst ` set m"
    using Cons.prems by simp
  have fresh: "\<And>x. x \<in> fst ` set m \<Longrightarrow> x \<noteq> k0 \<Longrightarrow> lower x \<noteq> lower k0"
    using Cons.prems(3) k0m by (meson inj_onD)
  have fresh2: "\<And>x. x \<in> fst ` set m \<Longrightarrow> x \<noteq> k0 \<Longrightarrow> x \<noteq> lower k0"
    using fresh by (metis idem)
  have inj1: "inj_on lower (fst ` set ?m1)"
    unfolding keys1 inj_on_def
    using Cons.prems(3) fresh k0m
    by (metis Diff_iff idem inj_onD insert_iff)
  show ?case
  proof (cases "k = k0")
    case True
    have "lower k0 \<notin> set ks"
      using fresh2 Cons.prems(1,2) by (metis distinct.simps(2) list.set_intros(2) subsetD)
    moreover have "lower k0 \<notin> lower ` set ks"
      using fresh Cons.prems(1,2) by (metis distinct.simps(2) imageE list.set_intros(2) subsetD)
    ultimately have "map_of (lowercaseKeys lower ks ?m1) (lower k0) = map_of ?m1 (lower k0)"
      by (rule lowercaseKeys_other)
    then show ?thesis
      using v True by (simp add: update_conv')
  next
    case False
    then have kin: "k \<in> set ks" using Cons.prems(4) by simp
    have "map_of (lowercaseKeys lower ks ?m1) (lower k) = map_of ?m1 k"
      using Cons.IH [OF _ sub inj1 kin] Cons.prems(1) by simp
    moreover have "k \<noteq> lower k0"
      using fresh2 False kin Cons.prems(2) by (metis list.set_intros(2) subsetD)
    ultimately show ?thesis
      using v False by (simp add: update_conv' delete_conv')
  qed
qed

lemma values_update: "snd ` set (AList.update k v al) \<subseteq> insert v (snd ` set al)"
  by (induction al) auto

lemma values_delete: "snd ` set (AList.delete k al) \<subseteq> snd ` set al"
  by (induction al) auto

text \<open>The loop moves values and makes none.\<close>

lemma lowercaseKeys_values: "snd ` set (lowercaseKeys lower ks m) \<subseteq> snd ` set m"
proof (induction ks arbitrary: m)
  case Nil
  show ?case by simp
next
  case (Cons k ks)
  show ?case
  proof (cases "map_of m k")
    case None
    then show ?thesis using Cons.IH by simp
  next
    case (Some v)
    then have "v \<in> snd ` set m"
      by (metis map_of_SomeD image_eqI snd_conv)
    then have "snd ` set (AList.update (lower k) v (AList.delete k m)) \<subseteq> snd ` set m"
      using values_update [of "lower k" v "AList.delete k m"] values_delete [of k m] by auto
    then show ?thesis
      using Some Cons.IH [of "AList.update (lower k) v (AList.delete k m)"] by auto
  qed
qed

lemma lowercaseKeys_distinct:
  "distinct (map fst m) \<Longrightarrow> distinct (map fst (lowercaseKeys lower ks m))"
proof (induction ks arbitrary: m)
  case Nil
  then show ?case by simp
next
  case (Cons k ks)
  then show ?case
    by (cases "map_of m k") (simp_all add: distinct_update distinct_delete)
qed

lemma lowercaseKeys_entries:
  assumes idem: "\<And>s. lower (lower s) = lower s"
    and "distinct (map fst f)" and "inj_on lower (fst ` set f)"
  shows "set (lowercaseKeys lower (map fst f) f) = (\<lambda>(k, v). (lower k, v)) ` set f"
proof -
  let ?f' = "lowercaseKeys lower (map fst f) f"
  have keys: "fst ` set ?f' = lower ` fst ` set f"
    using lowercaseKeys_keys [where lower = lower and ks = "map fst f" and m = f, OF idem]
      assms(2) by simp
  have dist': "distinct (map fst ?f')"
    using assms(2) by (rule lowercaseKeys_distinct)
  have val: "\<And>k. k \<in> fst ` set f \<Longrightarrow> map_of ?f' (lower k) = map_of f k"
    using lowercaseKeys_value [where lower = lower and ks = "map fst f" and m = f, OF idem]
      assms(2,3) by simp
  show ?thesis
  proof (intro set_eqI iffI)
    fix p assume p: "p \<in> set ?f'"
    obtain x v where xv: "p = (x, v)" by (cases p) auto
    then have "x \<in> fst ` set ?f'" using p by force
    then obtain k where k: "k \<in> fst ` set f" "x = lower k"
      using keys by auto
    have "map_of ?f' x = Some v"
      using p xv dist' by simp
    then have "map_of f k = Some v"
      using val k by simp
    then have "(k, v) \<in> set f"
      by (rule map_of_SomeD)
    then show "p \<in> (\<lambda>(k, v). (lower k, v)) ` set f"
      using xv k by force
  next
    fix p assume "p \<in> (\<lambda>(k, v). (lower k, v)) ` set f"
    then obtain k v where kv: "(k, v) \<in> set f" "p = (lower k, v)"
      by auto
    then have "map_of f k = Some v"
      using assms(2) by simp
    moreover have "k \<in> fst ` set f" using kv by force
    ultimately have "map_of ?f' (lower k) = Some v"
      using val by simp
    then show "p \<in> set ?f'"
      using kv by (simp add: map_of_SomeD)
  qed
qed

lemma matchesFilter_iff:
  "matchesFilter lower metadata f
     \<longleftrightarrow> (\<forall>(k, v)\<in>set f. go_eq (index_map metadata (lower k)) v)"
  by (induction f) (auto simp: Let_def split: if_splits)

section \<open>The query engine\<close>

text \<open>An iterator has a first entry exactly when a key of the store lies in its range.\<close>

lemma pebble_NewIter_empty_iff:
  "pebble_NewIter db lo hi \<noteq> [] \<longleftrightarrow> (\<exists>k\<in>fst ` set db. lo \<le> k \<and> k < hi)"
proof -
  have "pebble_NewIter db lo hi \<noteq> [] \<longleftrightarrow> set (pebble_NewIter db lo hi) \<noteq> {}"
    by simp
  also have "\<dots> \<longleftrightarrow> (\<exists>k\<in>fst ` set db. lo \<le> k \<and> k < hi)"
    unfolding pebble_NewIter_def by (auto simp: filter_empty_conv) force
  finally show ?thesis .
qed


lemmas scenario_simps =
  Query_def scenario_env_def scenario_db_def stub_env_def pebble_NewIter_def
  cosineSimilarity_def exact_def index_map_def doc_a_def doc_b_def zeroDocument_def
  ascii_ToLower_Source ascii_ToLower_source Let_def

lemma Query_embedded:
  assumes "generateEmbedding e queryText = Inr queryVec"
  shows "Query e db c queryText f =
           (case scan e queryVec (lowercaseKeys (strings_ToLower e) (map fst f) f)
                   (pebble_NewIter db (c @ '':'') (c @ '':'' @ [CHR 0xFF]))
                   (Fin (- 1)) zeroDocument of
              Inl p \<Rightarrow> Inl p
            | Inr (doc, err) \<Rightarrow>
                Inr (doc, err, lowercaseKeys (strings_ToLower e) (map fst f) f))"
  using assms by (simp add: Query_def Let_def)

lemma Query_failed_embedding:
  "generateEmbedding e queryText = Inl err
   \<Longrightarrow> Query e db c queryText f = Inr (zeroDocument, Some err, f)"
  by (simp add: Query_def)

text \<open>
  The scan compares a document only when its embedding is as long as the query's, so
  \<open>cosineSimilarity\<close> never reads out of range there: the scan returns.
\<close>

lemma scan_total:
  "\<exists>doc err. scan e queryVec f iter maxSimilarity matchingDoc = Inr (doc, err)"
proof (induction iter arbitrary: maxSimilarity matchingDoc)
  case Nil
  show ?case by simp
next
  case (Cons cell iter)
  obtain key bytes where cell: "cell = (key, bytes)"
    by (cases cell) auto
  show ?case
  proof (cases "json_Unmarshal e bytes")
    case (Inl err)
    then show ?thesis using cell by simp
  next
    case (Inr doc)
    show ?thesis
    proof (cases "matchesFilter (strings_ToLower e) (Metadata doc) f \<and> length queryVec > 0
                   \<and> length queryVec = length (Embedding doc)")
      case True
      then obtain s where "cosineSimilarity (arith e) queryVec (Embedding doc) = Inr s"
        using cosineSimilarity_total by blast
      then show ?thesis
        using cell Inr True Cons.IH by simp
    next
      case False
      then show ?thesis
        using cell Inr Cons.IH by auto
    qed
  qed
qed

lemma Query_never_panics: "\<exists>doc err f'. Query e db c queryText f = Inr (doc, err, f')"
proof (cases "generateEmbedding e queryText")
  case (Inl err)
  then show ?thesis by (simp add: Query_def)
next
  case (Inr queryVec)
  obtain doc err where
    "scan e queryVec (lowercaseKeys (strings_ToLower e) (map fst f) f)
       (pebble_NewIter db (c @ '':'') (c @ '':'' @ [CHR 0xFF])) (Fin (- 1)) zeroDocument
     = Inr (doc, err)"
    using scan_total by blast
  then show ?thesis
    by (simp add: Query_embedded [OF Inr])
qed

subsection \<open>Nothing to return\<close>

lemma scan_nothing_passes:
  assumes "\<forall>(key, bytes)\<in>set iter.
             \<exists>doc. json_Unmarshal e bytes = Inr doc
                   \<and> \<not> matchesFilter (strings_ToLower e) (Metadata doc) f"
  shows "scan e queryVec f iter maxSimilarity matchingDoc = Inr (matchingDoc, None)"
  using assms by (induction iter) auto

lemma Query_empty_collection:
  assumes "generateEmbedding e queryText = Inr queryVec"
    and "\<not> (\<exists>k\<in>fst ` set db. c @ '':'' \<le> k \<and> k < c @ '':'' @ [CHR 0xFF])"
  shows "Query e db c queryText f
           = Inr (zeroDocument, None, lowercaseKeys (strings_ToLower e) (map fst f) f)"
proof -
  have "pebble_NewIter db (c @ '':'') (c @ '':'' @ [CHR 0xFF]) = []"
    using assms(2) pebble_NewIter_empty_iff by blast
  then show ?thesis
    by (simp add: Query_embedded [OF assms(1)])
qed

text \<open>
  Claim C3, as amended. In the persistent variant, when the embedding of the query text
  succeeds and every record the scan visits deserialises to a document that the filter
  rejects, \<open>Query\<close> returns the zero Document, whose id is empty, and no error. A
  collection without records is the case where the scan visits nothing.
\<close>

theorem Query_nothing_found:
  assumes "generateEmbedding e queryText = Inr queryVec"
    and "\<forall>(key, bytes)\<in>set (pebble_NewIter db (c @ '':'') (c @ '':'' @ [CHR 0xFF])).
           \<exists>doc. json_Unmarshal e bytes = Inr doc
                 \<and> \<not> matchesFilter (strings_ToLower e) (Metadata doc)
                       (lowercaseKeys (strings_ToLower e) (map fst f) f)"
  shows "Query e db c queryText f
           = Inr (zeroDocument, None, lowercaseKeys (strings_ToLower e) (map fst f) f)
         \<and> ID zeroDocument = []"
  using scan_nothing_passes [OF assms(2)]
  by (simp add: Query_embedded [OF assms(1)] zeroDocument_def)

text \<open>
  In the scenario: the collection \<open>empty\<close> has no record, and no document of \<open>docs\<close> has
  the source \<open>z\<close>.
\<close>

theorem Query_nothing_found_witness:
  "Query scenario_env scenario_db ''empty'' ''q'' [] = Inr (zeroDocument, None, [])
   \<and> Query scenario_env scenario_db ''docs'' ''q'' [(''Source'', VString ''z'')]
       = Inr (zeroDocument, None, [(''source'', VString ''z'')])"
proof -
  have emb: "generateEmbedding scenario_env ''q'' = Inr [Fin 1, Fin 0]"
    by (simp add: scenario_simps)
  have h1: "\<forall>(key, bytes)\<in>set (pebble_NewIter scenario_db (''empty'' @ '':'')
                                   (''empty'' @ '':'' @ [CHR 0xFF])).
           \<exists>doc. json_Unmarshal scenario_env bytes = Inr doc
                 \<and> \<not> matchesFilter (strings_ToLower scenario_env) (Metadata doc)
                       (lowercaseKeys (strings_ToLower scenario_env) (map fst []) [])"
    by (simp add: scenario_simps)
  have h2: "\<forall>(key, bytes)\<in>set (pebble_NewIter scenario_db (''docs'' @ '':'')
                                   (''docs'' @ '':'' @ [CHR 0xFF])).
           \<exists>doc. json_Unmarshal scenario_env bytes = Inr doc
                 \<and> \<not> matchesFilter (strings_ToLower scenario_env) (Metadata doc)
                       (lowercaseKeys (strings_ToLower scenario_env)
                          (map fst [(''Source'', VString ''z'')])
                          [(''Source'', VString ''z'')])"
    by (simp add: scenario_simps)
  have f2: "lowercaseKeys (strings_ToLower scenario_env)
              (map fst [(''Source'', VString ''z'')]) [(''Source'', VString ''z'')]
            = [(''source'', VString ''z'')]"
    by (simp add: scenario_simps)
  show ?thesis
    using Query_nothing_found [OF emb h1] Query_nothing_found [OF emb h2] f2
    by simp
qed

text \<open>
  When the embedder fails, \<open>Query\<close> returns its error, on an empty store as on any
  other. The in-memory \<open>findNearestNeighbor\<close> answers a collection without vectors with
  the error "collection is empty".
\<close>

theorem Query_empty_collection_errors:
  "Query (stub_env [] []) [] ''docs'' ''Moon'' []
     = Inr (zeroDocument, Some (New ''no embeddings found in the response''), [])
   \<and> findNearestNeighbor exact [Fin 1, Fin 0] [] []
     = Inr ([], Some (New ''collection is empty''))"
  by (simp add: Query_def stub_env_def findNearestNeighbor_def)

lemma findNearestNeighbor_empty:
  "findNearestNeighbor ar queryVec [] docs = Inr ([], Some (New ''collection is empty''))"
  by (simp add: findNearestNeighbor_def)

subsection \<open>The best match\<close>

lemma fgt_irrefl: "\<not> fgt x x"
  by (cases x) simp_all

lemma fgt_trans: "fgt x y \<Longrightarrow> fgt y z \<Longrightarrow> fgt x z"
  by (cases x; cases y; cases z) simp_all

lemma fgt_asym: "fgt x y \<Longrightarrow> \<not> fgt y x"
  using fgt_trans fgt_irrefl by blast

text \<open>
  What the scan selects, when every record deserialises. The candidates are the documents
  that pass the filter and whose embedding has the length of the query's, in scan order.
  Either no candidate's similarity is greater than the starting maximum and the starting
  document is returned, or the result is a candidate \<open>r\<close> with a similarity \<open>s\<close> greater
  than the starting maximum, no candidate's similarity is greater than \<open>s\<close>, and no
  candidate before \<open>r\<close> has the similarity \<open>s\<close>.
\<close>

lemma scan_first_maximum:
  assumes "map (\<lambda>cell. json_Unmarshal e (snd cell)) iter = map Inr docs"
    and "cands = filter (\<lambda>doc. matchesFilter (strings_ToLower e) (Metadata doc) f \<and> 0 < length q
                                \<and> length q = length (Embedding doc)) docs"
  shows "\<exists>r. scan e q f iter m d0 = Inr (r, None)
          \<and> ((r = d0 \<and> (\<forall>c\<in>set cands. \<forall>t. cosineSimilarity (arith e) q (Embedding c) = Inr t
                            \<longrightarrow> \<not> fgt t m))
             \<or> (\<exists>pre post s. cands = pre @ r # post
                  \<and> cosineSimilarity (arith e) q (Embedding r) = Inr s \<and> fgt s m
                  \<and> (\<forall>c\<in>set cands. \<forall>t. cosineSimilarity (arith e) q (Embedding c) = Inr t
                        \<longrightarrow> \<not> fgt t s)
                  \<and> (\<forall>c\<in>set pre. cosineSimilarity (arith e) q (Embedding c) \<noteq> Inr s)))"
  using assms
proof (induction iter arbitrary: docs cands m d0)
  case Nil
  then show ?case by simp
next
  case (Cons cell iter)
  obtain key bytes where cell: "cell = (key, bytes)"
    by (cases cell) auto
  from Cons.prems(1) obtain doc docs' where docs: "docs = doc # docs'"
    and un: "json_Unmarshal e bytes = Inr doc"
    and rest: "map (\<lambda>cell. json_Unmarshal e (snd cell)) iter = map Inr docs'"
    using cell by (cases docs) auto
  let ?cand = "\<lambda>doc. matchesFilter (strings_ToLower e) (Metadata doc) f \<and> 0 < length q
                        \<and> length q = length (Embedding doc)"
  let ?sim = "\<lambda>c. cosineSimilarity (arith e) q (Embedding c)"
  define cands' where "cands' = filter ?cand docs'"
  show ?case
  proof (cases "?cand doc")
    case False
    then have c: "cands = cands'"
      using Cons.prems(2) docs cands'_def by auto
    have step: "scan e q f (cell # iter) m d0 = scan e q f iter m d0"
      using cell un False by auto
    show ?thesis
      unfolding step c using Cons.IH [OF rest cands'_def] .
  next
    case True
    then have c: "cands = doc # cands'"
      using Cons.prems(2) docs cands'_def by auto
    obtain s where s: "?sim doc = Inr s"
      using True cosineSimilarity_total by blast
    show ?thesis
    proof (cases "fgt s m")
      case gt: True
      have step: "scan e q f (cell # iter) m d0 = scan e q f iter s doc"
        using cell un True s gt by auto
      from Cons.IH [OF rest cands'_def, of s doc]
      obtain r where r: "scan e q f iter s doc = Inr (r, None)"
        and alt: "(r = doc \<and> (\<forall>c\<in>set cands'. \<forall>t. ?sim c = Inr t \<longrightarrow> \<not> fgt t s))
             \<or> (\<exists>pre post s'. cands' = pre @ r # post \<and> ?sim r = Inr s' \<and> fgt s' s
                  \<and> (\<forall>c\<in>set cands'. \<forall>t. ?sim c = Inr t \<longrightarrow> \<not> fgt t s')
                  \<and> (\<forall>c\<in>set pre. ?sim c \<noteq> Inr s'))"
        by blast
      from alt show ?thesis
      proof
        assume a: "r = doc \<and> (\<forall>c\<in>set cands'. \<forall>t. ?sim c = Inr t \<longrightarrow> \<not> fgt t s)"
        have "cands = [] @ r # cands'" using c a by simp
        moreover have "\<forall>c\<in>set cands. \<forall>t. ?sim c = Inr t \<longrightarrow> \<not> fgt t s"
          using a c s fgt_irrefl by auto
        ultimately show ?thesis
          unfolding step using r a s gt by (metis empty_iff empty_set)
      next
        assume "\<exists>pre post s'. cands' = pre @ r # post \<and> ?sim r = Inr s' \<and> fgt s' s
                  \<and> (\<forall>c\<in>set cands'. \<forall>t. ?sim c = Inr t \<longrightarrow> \<not> fgt t s')
                  \<and> (\<forall>c\<in>set pre. ?sim c \<noteq> Inr s')"
        then obtain pre post s' where b: "cands' = pre @ r # post" "?sim r = Inr s'" "fgt s' s"
            "\<forall>c\<in>set cands'. \<forall>t. ?sim c = Inr t \<longrightarrow> \<not> fgt t s'"
            "\<forall>c\<in>set pre. ?sim c \<noteq> Inr s'"
          by blast
        have 1: "cands = (doc # pre) @ r # post" using c b(1) by simp
        have 2: "fgt s' m" using b(3) gt by (rule fgt_trans)
        have 3: "\<forall>c\<in>set cands. \<forall>t. ?sim c = Inr t \<longrightarrow> \<not> fgt t s'"
          using b(4) c s b(3) fgt_asym by auto
        have "s \<noteq> s'" using b(3) fgt_irrefl by auto
        then have 4: "\<forall>c\<in>set (doc # pre). ?sim c \<noteq> Inr s'"
          using b(5) s by auto
        show ?thesis
          unfolding step using r 1 2 3 4 b(2) by blast
      qed
    next
      case ngt: False
      have step: "scan e q f (cell # iter) m d0 = scan e q f iter m d0"
        using cell un True s ngt by auto
      from Cons.IH [OF rest cands'_def, of m d0]
      obtain r where r: "scan e q f iter m d0 = Inr (r, None)"
        and alt: "(r = d0 \<and> (\<forall>c\<in>set cands'. \<forall>t. ?sim c = Inr t \<longrightarrow> \<not> fgt t m))
             \<or> (\<exists>pre post s'. cands' = pre @ r # post \<and> ?sim r = Inr s' \<and> fgt s' m
                  \<and> (\<forall>c\<in>set cands'. \<forall>t. ?sim c = Inr t \<longrightarrow> \<not> fgt t s')
                  \<and> (\<forall>c\<in>set pre. ?sim c \<noteq> Inr s'))"
        by blast
      from alt show ?thesis
      proof
        assume a: "r = d0 \<and> (\<forall>c\<in>set cands'. \<forall>t. ?sim c = Inr t \<longrightarrow> \<not> fgt t m)"
        then have "\<forall>c\<in>set cands. \<forall>t. ?sim c = Inr t \<longrightarrow> \<not> fgt t m"
          using c s ngt by auto
        then show ?thesis
          unfolding step using r a by blast
      next
        assume "\<exists>pre post s'. cands' = pre @ r # post \<and> ?sim r = Inr s' \<and> fgt s' m
                  \<and> (\<forall>c\<in>set cands'. \<forall>t. ?sim c = Inr t \<longrightarrow> \<not> fgt t s')
                  \<and> (\<forall>c\<in>set pre. ?sim c \<noteq> Inr s')"
        then obtain pre post s' where b: "cands' = pre @ r # post" "?sim r = Inr s'" "fgt s' m"
            "\<forall>c\<in>set cands'. \<forall>t. ?sim c = Inr t \<longrightarrow> \<not> fgt t s'"
            "\<forall>c\<in>set pre. ?sim c \<noteq> Inr s'"
          by blast
        have 1: "cands = (doc # pre) @ r # post" using c b(1) by simp
        have "\<not> fgt s s'" using ngt b(3) fgt_trans by blast
        then have 3: "\<forall>c\<in>set cands. \<forall>t. ?sim c = Inr t \<longrightarrow> \<not> fgt t s'"
          using b(4) c s by auto
        have "s \<noteq> s'" using b(3) ngt by auto
        then have 4: "\<forall>c\<in>set (doc # pre). ?sim c \<noteq> Inr s'"
          using b(5) s by auto
        show ?thesis
          unfolding step using r 1 3 4 b(2,3) by blast
      qed
    qed
  qed
qed

text \<open>
  So \<open>Query\<close> returns the first candidate of maximal similarity whenever some candidate
  has a similarity greater than \<open>-1.0\<close>, the value \<open>maxSimilarity\<close> starts from.
\<close>

lemma Query_first_maximum:
  assumes "generateEmbedding e queryText = Inr q"
    and "map (\<lambda>cell. json_Unmarshal e (snd cell))
           (pebble_NewIter db (c @ '':'') (c @ '':'' @ [CHR 0xFF])) = map Inr docs"
    and "cands = filter (\<lambda>doc. matchesFilter (strings_ToLower e) (Metadata doc)
                                  (lowercaseKeys (strings_ToLower e) (map fst f) f)
                                \<and> 0 < length q \<and> length q = length (Embedding doc)) docs"
    and "\<exists>c\<in>set cands. \<exists>t. cosineSimilarity (arith e) q (Embedding c) = Inr t
                              \<and> fgt t (Fin (- 1))"
  shows "\<exists>r pre post s.
           Query e db c queryText f = Inr (r, None, lowercaseKeys (strings_ToLower e) (map fst f) f)
           \<and> cands = pre @ r # post
           \<and> cosineSimilarity (arith e) q (Embedding r) = Inr s
           \<and> (\<forall>c\<in>set cands. \<forall>t. cosineSimilarity (arith e) q (Embedding c) = Inr t
                 \<longrightarrow> \<not> fgt t s)
           \<and> (\<forall>c\<in>set pre. cosineSimilarity (arith e) q (Embedding c) \<noteq> Inr s)"
proof -
  from scan_first_maximum [OF assms(2,3), of "Fin (- 1)" zeroDocument]
  obtain r where r: "scan e q (lowercaseKeys (strings_ToLower e) (map fst f) f)
        (pebble_NewIter db (c @ '':'') (c @ '':'' @ [CHR 0xFF])) (Fin (- 1)) zeroDocument
      = Inr (r, None)"
    and alt: "(r = zeroDocument
               \<and> (\<forall>c\<in>set cands. \<forall>t. cosineSimilarity (arith e) q (Embedding c) = Inr t
                     \<longrightarrow> \<not> fgt t (Fin (- 1))))
       \<or> (\<exists>pre post s. cands = pre @ r # post
            \<and> cosineSimilarity (arith e) q (Embedding r) = Inr s \<and> fgt s (Fin (- 1))
            \<and> (\<forall>c\<in>set cands. \<forall>t. cosineSimilarity (arith e) q (Embedding c) = Inr t
                  \<longrightarrow> \<not> fgt t s)
            \<and> (\<forall>c\<in>set pre. cosineSimilarity (arith e) q (Embedding c) \<noteq> Inr s))"
    by blast
  have q: "Query e db c queryText f = Inr (r, None, lowercaseKeys (strings_ToLower e) (map fst f) f)"
    using r by (simp add: Query_embedded [OF assms(1)])
  from alt assms(4) obtain pre post s where "cands = pre @ r # post"
    "cosineSimilarity (arith e) q (Embedding r) = Inr s"
    "\<forall>c\<in>set cands. \<forall>t. cosineSimilarity (arith e) q (Embedding c) = Inr t \<longrightarrow> \<not> fgt t s"
    "\<forall>c\<in>set pre. cosineSimilarity (arith e) q (Embedding c) \<noteq> Inr s"
    by blast
  then show ?thesis
    using q by blast
qed

lemma Query_scenario_best_match:
  "Query scenario_env scenario_db ''docs'' ''q'' [] = Inr (doc_a, None, [])
   \<and> Query scenario_env scenario_db ''docs'' ''q'' [(''source'', VString ''y'')]
       = Inr (doc_b, None, [(''source'', VString ''y'')])"
  by (simp add: scenario_simps)

text \<open>
  Claim C4. The query returns the candidate of maximal cosine similarity, the first one
  on ties. The code starts \<open>maxSimilarity\<close> at \<open>-1.0\<close> and replaces it on strict \<open>>\<close>
  only, so a candidate whose similarity is exactly \<open>-1.0\<close> is never taken: with the
  single stored embedding \<open>[-1]\<close> and the query embedding \<open>[1]\<close> the similarity is
  \<open>-1/(1*1) = -1\<close>, and both variants return the empty result although the candidate
  sequence is not empty.
\<close>

theorem Query_drops_candidate_at_minus_one:
  "cosineSimilarity exact [Fin 1] [Fin (- 1)] = Inr (Fin (- 1))
   \<and> Query (stub_env [(''q'', [Fin 1])]
              [(''A'', \<lparr>ID = ''a'', Text = ''t'', Embedding = [Fin (- 1)], Metadata = []\<rparr>)])
        [(''docs:a'', ''A'')] ''docs'' ''q'' []
      = Inr (zeroDocument, None, [])
   \<and> findNearestNeighbor exact [Fin 1] [[Fin (- 1)]]
        [\<lparr>DocID = ''a'', DocText = ''t'', DocMetadata = []\<rparr>]
      = Inr ([], None)"
  by (simp add: Query_def stub_env_def pebble_NewIter_def cosineSimilarity_def exact_def
      findNearestNeighbor_def)

subsection \<open>Embeddings of another length\<close>

text \<open>
  Claim C5. A stored embedding whose length differs from the query's is skipped and never
  read out of range. The persistent \<open>Query\<close> checks the lengths before it calls
  \<open>cosineSimilarity\<close> (lemmas \<open>scan_total\<close> and \<open>Query_never_panics\<close>). The in-memory
  \<open>findNearestNeighbor\<close> has no such check: with the query \<open>[1,0]\<close> and the stored vector
  \<open>[1]\<close> the read of \<open>b[1]\<close> is out of range and the call panics, and with the query \<open>[1]\<close>
  and the stored vector \<open>[1,0]\<close> the longer vector is scored on its first component and
  its document returned.
\<close>

theorem findNearestNeighbor_length_mismatch:
  "findNearestNeighbor exact [Fin 1, Fin 0] [[Fin 1]]
     [\<lparr>DocID = ''a'', DocText = ''t'', DocMetadata = []\<rparr>] = Inl IndexOutOfRange
   \<and> findNearestNeighbor exact [Fin 1] [[Fin 1, Fin 0]]
       [\<lparr>DocID = ''a'', DocText = ''t'', DocMetadata = []\<rparr>] = Inr (''a'', None)"
  by (simp add: findNearestNeighbor_def cosineSimilarity_def exact_def)

subsection \<open>The metadata filter\<close>

text \<open>
  A scan under a filter is the scan without filter of the records whose document passes
  the inlined check. A record that does not deserialise stays, and stops both scans.
\<close>

lemma scan_filtered:
  "scan e q f iter m d0 =
     scan e q []
       (filter (\<lambda>(key, bytes). case json_Unmarshal e bytes of
                                  Inl err \<Rightarrow> True
                                | Inr d \<Rightarrow> matchesFilter (strings_ToLower e) (Metadata d) f)
          iter) m d0"
proof -
  define P where "P = (\<lambda>(key :: string, bytes). case json_Unmarshal e bytes of
                                  Inl err \<Rightarrow> True
                                | Inr d \<Rightarrow> matchesFilter (strings_ToLower e) (Metadata d) f)"
  have "scan e q f iter m d0 = scan e q [] (filter P iter) m d0"
  proof (induction iter arbitrary: m d0)
    case Nil
    show ?case by simp
  next
    case (Cons cell iter)
    obtain key bytes where cell: "cell = (key, bytes)"
      by (cases cell) auto
    show ?case
    proof (cases "json_Unmarshal e bytes")
      case (Inl err)
      then have "P cell" using cell by (simp add: P_def)
      then show ?thesis using cell Inl by simp
    next
      case (Inr doc)
      show ?thesis
      proof (cases "matchesFilter (strings_ToLower e) (Metadata doc) f")
        case True
        then have "P cell" using cell Inr by (simp add: P_def)
        then show ?thesis
          using cell Inr True Cons.IH by (auto split: sum.splits)
      next
        case False
        then have "\<not> P cell" using cell Inr by (simp add: P_def)
        then show ?thesis
          using cell Inr False Cons.IH by auto
      qed
    qed
  qed
  then show ?thesis
    unfolding P_def .
qed

lemma pebble_NewIter_filter:
  "pebble_NewIter (filter P db) lo hi = filter P (pebble_NewIter db lo hi)"
proof -
  have "filter (\<lambda>(k, v). lo \<le> k \<and> k < hi) (filter P db)
          = filter P (filter (\<lambda>(k, v). lo \<le> k \<and> k < hi) db)"
    by (simp add: conj_commute)
  then show ?thesis
    by (simp add: pebble_NewIter_def filter_sort del: filter_filter)
qed

lemma go_eq_index_map:
  "v \<noteq> VNil \<Longrightarrow>
   go_eq (index_map metadata k) v \<longleftrightarrow> (\<exists>mv. map_of metadata k = Some mv \<and> go_eq mv v)"
  by (cases v) (auto simp: index_map_def split: option.splits)

text \<open>
  Claim C6, as amended. In the persistent \<open>Query\<close>, once the query text is embedded and
  for a filter without nil values, the filter that the scan uses is the map \<open>f'\<close> that the
  call leaves to the caller: its keys are the lower-cased keys of the filter passed in and,
  where no two of these share a lower-cased form, its entries are the entries passed in
  under their lower-cased keys. The document and the error that \<open>Query\<close> returns are
  those of a query without filter on the store cut down to the records whose document
  holds, at every key of \<open>f'\<close>, a metadata value equal to the value of \<open>f'\<close> under the
  \<open>==\<close> of Go. The keys of the document's metadata are taken as they are, and \<open>==\<close> on
  strings is equality. The one fact assumed of \<open>strings.ToLower\<close> is that lower-casing a
  lower-cased string changes nothing.
\<close>

theorem Query_filter_normalised:
  assumes "generateEmbedding e queryText = Inr queryVec"
    and "distinct (map fst f)"
    and "VNil \<notin> snd ` set f"
    and "\<forall>s. strings_ToLower e (strings_ToLower e s) = strings_ToLower e s"
  shows "\<exists>doc err f'. Query e db c queryText f = Inr (doc, err, f')
     \<and> fst ` set f' = strings_ToLower e ` fst ` set f
     \<and> (inj_on (strings_ToLower e) (fst ` set f) \<longrightarrow>
          set f' = (\<lambda>(k, v). (strings_ToLower e k, v)) ` set f)
     \<and> Query e
          (filter (\<lambda>(key, bytes). case json_Unmarshal e bytes of
                                     Inl err' \<Rightarrow> True
                                   | Inr d \<Rightarrow> (\<forall>(k, v)\<in>set f'.
                                                \<exists>mv. map_of (Metadata d) k = Some mv
                                                      \<and> go_eq mv v))
             db)
          c queryText [] = Inr (doc, err, [])"
proof -
  let ?lower = "strings_ToLower e"
  let ?f' = "lowercaseKeys ?lower (map fst f) f"
  let ?iter = "pebble_NewIter db (c @ '':'') (c @ '':'' @ [CHR 0xFF])"
  let ?P = "\<lambda>(key, bytes). case json_Unmarshal e bytes of
                              Inl err' \<Rightarrow> True
                            | Inr d \<Rightarrow> matchesFilter ?lower (Metadata d) ?f'"
  let ?P' = "\<lambda>(key, bytes). case json_Unmarshal e bytes of
                               Inl err' \<Rightarrow> True
                             | Inr d \<Rightarrow> (\<forall>(k, v)\<in>set ?f'.
                                          \<exists>mv. map_of (Metadata d) k = Some mv \<and> go_eq mv v)"
  have idem: "\<And>s. ?lower (?lower s) = ?lower s"
    using assms(4) by simp
  obtain doc err where sc: "scan e queryVec ?f' ?iter (Fin (- 1)) zeroDocument = Inr (doc, err)"
    using scan_total by blast
  have q: "Query e db c queryText f = Inr (doc, err, ?f')"
    using sc by (simp add: Query_embedded [OF assms(1)])
  have keys: "fst ` set ?f' = ?lower ` fst ` set f"
    using lowercaseKeys_keys [where lower = ?lower and ks = "map fst f" and m = f, OF idem]
      assms(2) by simp
  have fixed: "\<And>k v. (k, v) \<in> set ?f' \<Longrightarrow> ?lower k = k"
  proof -
    fix k v assume "(k, v) \<in> set ?f'"
    then have "k \<in> fst ` set ?f'" by force
    then show "?lower k = k" using keys idem by auto
  qed
  have nonnil: "\<And>k v. (k, v) \<in> set ?f' \<Longrightarrow> v \<noteq> VNil"
  proof -
    fix k v assume "(k, v) \<in> set ?f'"
    then have "v \<in> snd ` set ?f'" by force
    then have "v \<in> snd ` set f"
      using lowercaseKeys_values [of ?lower "map fst f" f] by blast
    then show "v \<noteq> VNil" using assms(3) by blast
  qed
  have m: "\<And>md. matchesFilter ?lower md ?f'
             = (\<forall>(k, v)\<in>set ?f'. \<exists>mv. map_of md k = Some mv \<and> go_eq mv v)"
    using fixed nonnil by (auto simp: matchesFilter_iff go_eq_index_map)
  have P: "?P = ?P'"
    by (intro ext) (simp add: m split: prod.splits sum.splits)
  have ent: "inj_on ?lower (fst ` set f) \<longrightarrow> set ?f' = (\<lambda>(k, v). (?lower k, v)) ` set f"
    using lowercaseKeys_entries [where lower = ?lower and f = f, OF idem assms(2)] by blast
  have "scan e queryVec [] (filter ?P ?iter) (Fin (- 1)) zeroDocument = Inr (doc, err)"
    using sc scan_filtered [of e queryVec ?f' ?iter] by simp
  then have "scan e queryVec [] (pebble_NewIter (filter ?P' db) (c @ '':'') (c @ '':'' @ [CHR 0xFF]))
               (Fin (- 1)) zeroDocument = Inr (doc, err)"
    unfolding P by (simp only: pebble_NewIter_filter)
  then have q': "Query e (filter ?P' db) c queryText [] = Inr (doc, err, [])"
    by (simp add: Query_embedded [OF assms(1)])
  show ?thesis
    using q keys ent q' by blast
qed

text \<open>
  In the scenario the best match without filter is the document \<open>a\<close>. Under the filter
  \<open>{Source: y}\<close> the caller's map becomes \<open>{source: y}\<close> and the result is the document
  \<open>b\<close>, the only one whose metadata has \<open>source\<close> equal to \<open>y\<close>; it is also the result
  without filter on the store that holds the record of \<open>b\<close> alone. Under \<open>{Source: Y}\<close>
  nothing is found: the value \<open>Y\<close> is not the value \<open>y\<close>.
\<close>

theorem Query_filter_normalised_witness:
  "Query scenario_env scenario_db ''docs'' ''q'' [] = Inr (doc_a, None, [])
   \<and> Query scenario_env scenario_db ''docs'' ''q'' [(''Source'', VString ''y'')]
       = Inr (doc_b, None, [(''source'', VString ''y'')])
   \<and> filter (\<lambda>(key, bytes). case json_Unmarshal scenario_env bytes of
                                Inl err' \<Rightarrow> True
                              | Inr d \<Rightarrow> (\<forall>(k, v)\<in>set [(''source'', VString ''y'')].
                                           \<exists>mv. map_of (Metadata d) k = Some mv \<and> go_eq mv v))
        scenario_db = [(''docs:b'', ''B'')]
   \<and> Query scenario_env [(''docs:b'', ''B'')] ''docs'' ''q'' [] = Inr (doc_b, None, [])
   \<and> Query scenario_env scenario_db ''docs'' ''q'' [(''Source'', VString ''Y'')]
       = Inr (zeroDocument, None, [(''source'', VString ''Y'')])"
proof -
  have emb: "generateEmbedding scenario_env ''q'' = Inr [Fin 1, Fin 0]"
    by (simp add: scenario_simps)
  have dist: "distinct (map fst [(''Source'', VString ''y'')])"
    by simp
  have idem: "\<forall>s. strings_ToLower scenario_env (strings_ToLower scenario_env s)
                   = strings_ToLower scenario_env s"
    unfolding scenario_env_def by (rule stub_env_ToLower_idem)
  have q: "Query scenario_env scenario_db ''docs'' ''q'' [(''Source'', VString ''y'')]
       = Inr (doc_b, None, [(''source'', VString ''y'')])"
    by (simp add: scenario_simps)
  have nonnil: "VNil \<notin> snd ` set [(''Source'', VString ''y'')]"
    by simp
  have cut: "filter (\<lambda>(key, bytes). case json_Unmarshal scenario_env bytes of
                                Inl err' \<Rightarrow> True
                              | Inr d \<Rightarrow> (\<forall>(k, v)\<in>set [(''source'', VString ''y'')].
                                           \<exists>mv. map_of (Metadata d) k = Some mv \<and> go_eq mv v))
        scenario_db = [(''docs:b'', ''B'')]"
    by (simp add: scenario_simps)
  from Query_filter_normalised [OF emb dist nonnil idem, of scenario_db "''docs''"] q
  have "Query scenario_env
          (filter (\<lambda>(key, bytes). case json_Unmarshal scenario_env bytes of
                                Inl err' \<Rightarrow> True
                              | Inr d \<Rightarrow> (\<forall>(k, v)\<in>set [(''source'', VString ''y'')].
                                           \<exists>mv. map_of (Metadata d) k = Some mv \<and> go_eq mv v))
             scenario_db) ''docs'' ''q'' [] = Inr (doc_b, None, [])"
    by auto
  then have cutq: "Query scenario_env [(''docs:b'', ''B'')] ''docs'' ''q'' [] = Inr (doc_b, None, [])"
    by (simp only: cut)
  have "Query scenario_env scenario_db ''docs'' ''q'' [] = Inr (doc_a, None, [])"
    and "Query scenario_env scenario_db ''docs'' ''q'' [(''Source'', VString ''Y'')]
       = Inr (zeroDocument, None, [(''source'', VString ''Y'')])"
    by (simp_all add: scenario_simps)
  then show ?thesis
    using q cut cutq by blast
qed

text \<open>
  The in-memory variant compares the keys as they are: \<open>matchesMetadataFilter\<close> accepts a
  document exactly when its metadata holds every key of the filter, as given, with a value
  equal to the filter's.
\<close>

lemma matchesMetadataFilter_iff:
  "matchesMetadataFilter metadata g
     \<longleftrightarrow> (\<forall>(k, v)\<in>set g. \<exists>mv. map_of metadata k = Some mv \<and> go_eq mv v)"
  by (induction g) (auto split: option.splits if_splits)

text \<open>
  So it rejects the metadata \<open>{source: x}\<close> under the filter \<open>{Source: x}\<close> and accepts it
  once the key of the filter is lower-cased, and \<open>findNearestNeighborWithMetadata\<close> finds
  no document.
\<close>

theorem matchesMetadataFilter_keeps_key_case:
  "\<not> matchesMetadataFilter [(''source'', VString ''x'')] [(''Source'', VString ''x'')]
   \<and> matchesMetadataFilter [(''source'', VString ''x'')]
       [(ascii_ToLower ''Source'', VString ''x'')]
   \<and> findNearestNeighborWithMetadata exact [Fin 1, Fin 0] [[Fin 1, Fin 0]]
        [\<lparr>DocID = ''a'', DocText = ''The cat sat'', DocMetadata = [(''source'', VString ''x'')]\<rparr>]
        [(''Source'', VString ''x'')]
      = Inr ([], None)"
  by (simp add: ascii_ToLower_Source findNearestNeighborWithMetadata_def)

subsection \<open>A key of the filter that the document lacks\<close>

lemma matchesMetadataFilter_missing_key:
  "k \<in> fst ` set f \<Longrightarrow> k \<notin> fst ` set metadata \<Longrightarrow> \<not> matchesMetadataFilter metadata f"
proof (induction f)
  case Nil
  then show ?case by simp
next
  case (Cons entry f)
  obtain key filterValue where entry: "entry = (key, filterValue)"
    by (cases entry) auto
  show ?case
  proof (cases "key = k")
    case True
    have "map_of metadata k = None"
      using Cons.prems(2) by (simp add: map_of_eq_None_iff)
    then show ?thesis using entry True by simp
  next
    case False
    then have "k \<in> fst ` set f" using Cons.prems(1) entry by auto
    then have "\<not> matchesMetadataFilter metadata f"
      using Cons.IH Cons.prems(2) by blast
    then show ?thesis using entry by (simp split: option.splits)
  qed
qed

lemma matchesFilter_missing_key:
  assumes "(k, v) \<in> set f" and "v \<noteq> VNil" and "lower k \<notin> fst ` set metadata"
  shows "\<not> matchesFilter lower metadata f"
proof -
  have "map_of metadata (lower k) = None"
    using assms(3) by (simp add: map_of_eq_None_iff)
  then have "index_map metadata (lower k) = VNil"
    by (simp add: index_map_def)
  moreover have "\<not> go_eq VNil v"
    using assms(2) by (cases v) simp_all
  ultimately show ?thesis
    using assms(1) by (force simp: matchesFilter_iff)
qed

text \<open>
  Claim C7. A document that lacks a key of the filter is rejected. The helper
  \<open>matchesMetadataFilter\<close> tests the presence of the key and rejects (lemma
  \<open>matchesMetadataFilter_missing_key\<close>). The check inlined in the persistent \<open>Query\<close>
  compares \<open>doc.Metadata[lowercaseKey]\<close> with the value without that test: a missing key
  reads as nil, so a filter entry whose value is nil accepts a document that lacks the key.
  Here the only document has no metadata, the filter is \<open>{k: nil}\<close>, and \<open>Query\<close> returns
  the document.
\<close>

theorem Query_nil_filter_value_matches_missing_key:
  "''k'' \<in> fst ` set [(''k'', VNil)]
   \<and> ''k'' \<notin> fst ` set (Metadata \<lparr>ID = ''a'', Text = ''t'', Embedding = [Fin 1], Metadata = []\<rparr>)
   \<and> matchesFilter ascii_ToLower [] [(''k'', VNil)]
   \<and> Query (stub_env [(''q'', [Fin 1])]
              [(''A'', \<lparr>ID = ''a'', Text = ''t'', Embedding = [Fin 1], Metadata = []\<rparr>)])
        [(''docs:a'', ''A'')] ''docs'' ''q'' [(''k'', VNil)]
      = Inr (\<lparr>ID = ''a'', Text = ''t'', Embedding = [Fin 1], Metadata = []\<rparr>, None,
             [(''k'', VNil)])
   \<and> \<not> matchesMetadataFilter [] [(''k'', VNil)]"
  by (simp add: Query_def stub_env_def pebble_NewIter_def cosineSimilarity_def exact_def
      index_map_def ascii_ToLower_def ascii_toLowerChar_def isASCIIUpper_def)

subsection \<open>The caller's filter map\<close>

text \<open>
  Claim C10, as amended. When the embedding of the query text fails, the persistent
  \<open>Query\<close> returns the caller's map as it was. When it succeeds, the keys of the caller's
  map after the call are the lower-cased keys of the map passed in, each entry is found
  under its lower-cased key where no two keys share a lower-cased form, and the map differs
  from the one passed in whenever a key contains an upper-case letter, which is to say
  whenever \<open>strings.ToLower\<close> changes a key. The one fact assumed of \<open>strings.ToLower\<close> is
  that lower-casing a lower-cased string changes nothing.
\<close>

theorem Query_rewrites_filter:
  assumes "distinct (map fst f)"
    and "\<forall>s. strings_ToLower e (strings_ToLower e s) = strings_ToLower e s"
  shows "(\<forall>err. generateEmbedding e queryText = Inl err \<longrightarrow>
            Query e db c queryText f = Inr (zeroDocument, Some err, f))
     \<and> (\<forall>queryVec. generateEmbedding e queryText = Inr queryVec \<longrightarrow>
          (\<exists>doc err f'. Query e db c queryText f = Inr (doc, err, f')
             \<and> fst ` set f' = strings_ToLower e ` fst ` set f
             \<and> (inj_on (strings_ToLower e) (fst ` set f) \<longrightarrow>
                  set f' = (\<lambda>(k, v). (strings_ToLower e k, v)) ` set f)
             \<and> ((\<exists>k\<in>fst ` set f. strings_ToLower e k \<noteq> k) \<longrightarrow> map_of f' \<noteq> map_of f)))"
proof (intro conjI allI impI)
  fix err assume "generateEmbedding e queryText = Inl err"
  then show "Query e db c queryText f = Inr (zeroDocument, Some err, f)"
    by (rule Query_failed_embedding)
next
  fix queryVec assume emb: "generateEmbedding e queryText = Inr queryVec"
  let ?lower = "strings_ToLower e"
  let ?f' = "lowercaseKeys ?lower (map fst f) f"
  let ?iter = "pebble_NewIter db (c @ '':'') (c @ '':'' @ [CHR 0xFF])"
  have idem: "\<And>s. ?lower (?lower s) = ?lower s"
    using assms(2) by simp
  obtain doc err where sc: "scan e queryVec ?f' ?iter (Fin (- 1)) zeroDocument = Inr (doc, err)"
    using scan_total by blast
  have q: "Query e db c queryText f = Inr (doc, err, ?f')"
    using sc by (simp add: Query_embedded [OF emb])
  have keys: "fst ` set ?f' = ?lower ` fst ` set f"
    using lowercaseKeys_keys [where lower = ?lower and ks = "map fst f" and m = f, OF idem]
      assms(1) by simp
  have ent: "inj_on ?lower (fst ` set f) \<longrightarrow> set ?f' = (\<lambda>(k, v). (?lower k, v)) ` set f"
    using lowercaseKeys_entries [where lower = ?lower and f = f, OF idem assms(1)] by blast
  have ne: "(\<exists>k\<in>fst ` set f. ?lower k \<noteq> k) \<longrightarrow> map_of ?f' \<noteq> map_of f"
  proof
    assume "\<exists>k\<in>fst ` set f. ?lower k \<noteq> k"
    then obtain k where k: "k \<in> fst ` set f" "?lower k \<noteq> k"
      by blast
    have "k \<notin> fst ` set ?f'"
      using keys k(2) idem by (metis imageE)
    then have "dom (map_of ?f') \<noteq> dom (map_of f)"
      using k(1) by (simp add: dom_map_of_conv_image_fst) blast
    then show "map_of ?f' \<noteq> map_of f"
      by auto
  qed
  show "\<exists>doc err f'. Query e db c queryText f = Inr (doc, err, f')
             \<and> fst ` set f' = ?lower ` fst ` set f
             \<and> (inj_on ?lower (fst ` set f) \<longrightarrow> set f' = (\<lambda>(k, v). (?lower k, v)) ` set f)
             \<and> ((\<exists>k\<in>fst ` set f. ?lower k \<noteq> k) \<longrightarrow> map_of f' \<noteq> map_of f)"
    using q keys ent ne by blast
qed

text \<open>
  In the scenario the key \<open>Source\<close> is changed by the lower-casing, and the caller's map
  \<open>{Source: x}\<close> is \<open>{source: x}\<close> after the call.
\<close>

theorem Query_rewrites_filter_witness:
  "strings_ToLower scenario_env ''Source'' \<noteq> ''Source''
   \<and> Query scenario_env scenario_db ''docs'' ''q'' [(''Source'', VString ''x'')]
     = Inr (doc_a, None, [(''source'', VString ''x'')])
   \<and> map_of [(''source'', VString ''x'')] \<noteq> map_of [(''Source'', VString ''x'')]"
proof -
  have emb: "generateEmbedding scenario_env ''q'' = Inr [Fin 1, Fin 0]"
    by (simp add: scenario_simps)
  have dist: "distinct (map fst [(''Source'', VString ''x'')])"
    by simp
  have idem: "\<forall>s. strings_ToLower scenario_env (strings_ToLower scenario_env s)
                   = strings_ToLower scenario_env s"
    unfolding scenario_env_def by (rule stub_env_ToLower_idem)
  have up: "strings_ToLower scenario_env ''Source'' \<noteq> ''Source''"
    by (simp add: scenario_simps)
  have q: "Query scenario_env scenario_db ''docs'' ''q'' [(''Source'', VString ''x'')]
     = Inr (doc_a, None, [(''source'', VString ''x'')])"
    by (simp add: scenario_simps)
  have "map_of [(''source'', VString ''x'')] \<noteq> map_of [(''Source'', VString ''x'')]"
    using Query_rewrites_filter [OF dist idem, of "''q''" scenario_db "''docs''"] emb q up
    by auto
  then show ?thesis
    using up q by blast
qed

text \<open>
  When the embedder fails, \<open>Query\<close> returns before the loop that rewrites the keys: the
  caller's map, with its key \<open>Source\<close>, is as it was, although lower-casing changes that
  key.
\<close>

theorem Query_failed_embedding_keeps_filter:
  "strings_ToLower (stub_env [] []) ''Source'' \<noteq> ''Source''
   \<and> Query (stub_env [] []) scenario_db ''docs'' ''Moon'' [(''Source'', VString ''Notion'')]
     = Inr (zeroDocument, Some (New ''no embeddings found in the response''),
            [(''Source'', VString ''Notion'')])"
  by (simp add: Query_def stub_env_def ascii_ToLower_Source)

section \<open>The collection manager\<close>

text \<open>
  Claim C8, as amended. The persistent \<open>CreateCollection\<close> fails with "collection already
  exists" exactly when some key of the store lies between the name followed by a colon
  (included) and the name, stripped of its trailing colons, followed by a semicolon
  (excluded); it never writes. For a name that does not end with a colon the upper bound is
  the name followed by a semicolon.
\<close>

theorem CreateCollection_range_scan:
  "fst (CreateCollection db nm) =
      (if \<exists>k\<in>fst ` set db. nm @ '':'' \<le> k \<and> k < TrimRight nm '':'' @ '';''
       then Some (New ''collection already exists'') else None)
   \<and> snd (CreateCollection db nm) = db
   \<and> (nm = [] \<or> last nm \<noteq> CHR '':'' \<longrightarrow>
        (fst (CreateCollection db nm) = Some (New ''collection already exists''))
          = (\<exists>k\<in>fst ` set db. nm @ '':'' \<le> k \<and> k < nm @ '';''))"
proof -
  have 1: "fst (CreateCollection db nm) =
      (if \<exists>k\<in>fst ` set db. nm @ '':'' \<le> k \<and> k < TrimRight nm '':'' @ '';''
       then Some (New ''collection already exists'') else None)"
    using pebble_NewIter_empty_iff [of db "nm @ '':''" "TrimRight nm '':'' @ '';''"]
    by (simp add: CreateCollection_def Let_def)
  have 2: "snd (CreateCollection db nm) = db"
    by (simp add: CreateCollection_def Let_def)
  have 3: "nm = [] \<or> last nm \<noteq> CHR '':'' \<longrightarrow>
        (fst (CreateCollection db nm) = Some (New ''collection already exists''))
          = (\<exists>k\<in>fst ` set db. nm @ '':'' \<le> k \<and> k < nm @ '';'')"
  proof
    assume "nm = [] \<or> last nm \<noteq> CHR '':''"
    then have "TrimRight nm '':'' = nm"
      by (rule TrimRight_no_trailing)
    then show "(fst (CreateCollection db nm) = Some (New ''collection already exists''))
          = (\<exists>k\<in>fst ` set db. nm @ '':'' \<le> k \<and> k < nm @ '';'')"
      using 1 by simp
  qed
  show ?thesis using 1 2 3 by blast
qed

text \<open>
  In the scenario the collection \<open>docs\<close> exists and the collection \<open>doc\<close> does not.
\<close>

theorem CreateCollection_range_scan_witness:
  "(''docs'' = [] \<or> last ''docs'' \<noteq> CHR '':'')
   \<and> CreateCollection scenario_db ''docs''
       = (Some (New ''collection already exists''), scenario_db)
   \<and> CreateCollection scenario_db ''doc'' = (None, scenario_db)"
proof -
  have h: "''docs'' = [] \<or> last ''docs'' \<noteq> CHR '':''"
    by simp
  have h': "''doc'' = [] \<or> last ''doc'' \<noteq> CHR '':''"
    by simp
  have 1: "\<exists>k\<in>fst ` set scenario_db. ''docs'' @ '':'' \<le> k \<and> k < ''docs'' @ '';''"
    by (simp add: scenario_db_def)
  have 2: "\<not> (\<exists>k\<in>fst ` set scenario_db. ''doc'' @ '':'' \<le> k \<and> k < ''doc'' @ '';'')"
    by (simp add: scenario_db_def)
  have "fst (CreateCollection scenario_db ''docs'') = Some (New ''collection already exists'')"
    using CreateCollection_range_scan [of scenario_db "''docs''"] h 1 by blast
  moreover have "fst (CreateCollection scenario_db ''doc'')
                   \<noteq> Some (New ''collection already exists'')"
    using CreateCollection_range_scan [of scenario_db "''doc''"] h' 2 by blast
  then have "fst (CreateCollection scenario_db ''doc'') = None"
    using CreateCollection_range_scan [of scenario_db "''doc''"] by metis
  moreover have "snd (CreateCollection scenario_db ''docs'') = scenario_db"
    and "snd (CreateCollection scenario_db ''doc'') = scenario_db"
    using CreateCollection_range_scan by blast+
  ultimately show ?thesis
    using h by (simp add: prod_eq_iff)
qed

text \<open>
  For the name \<open>a:\<close> the upper bound of the scan is \<open>a;\<close>: the key \<open>a:x\<close> of the
  collection \<open>a\<close> is found and the call fails, although no key lies between \<open>a::\<close> and
  \<open>a:;\<close>. The in-memory \<open>CreateCollection\<close> succeeds by writing: it stores the new, empty
  collection under its name.
\<close>

theorem CreateCollection_trailing_colon:
  "CreateCollection [(''a:x'', ''X'')] ''a:''
     = (Some (New ''collection already exists''), [(''a:x'', ''X'')])
   \<and> \<not> (''a:'' @ '':'' \<le> ''a:x'' \<and> ''a:x'' < ''a:'' @ '';'')
   \<and> fst (mem_CreateCollection Map.empty ''docs'') = None
   \<and> snd (mem_CreateCollection Map.empty ''docs'') ''docs'' = Some (NewCollection ''docs'')"
  by (simp add: CreateCollection_def pebble_NewIter_def TrimRight_def mem_CreateCollection_def)

text \<open>
  In general the in-memory \<open>CreateCollection\<close> fails exactly when the name is registered,
  and registers it otherwise.
\<close>

lemma mem_CreateCollection_registry:
  "mem_CreateCollection db n =
     (if n \<in> dom db then (Some (New ''collection already exists''), db)
      else (None, db(n \<mapsto> NewCollection n)))"
  by (auto simp: mem_CreateCollection_def split: option.splits)

end
